theory Spec2Isabelle
  imports Main "HOL-Library.Word" "HOL-Library.Sublist" "HOL-Library.List_Lexorder"
    "HOL-Library.Char_ord"
begin

section \<open>The series iterator of the in-memory profile store\<close>

text \<open>
  This theory embeds \<^verbatim>\<open>pkg/storage/series_iterator.go\<close>: the column iterator
  interface, the iterator tree, \<^verbatim>\<open>MemSeries.Iterator\<close>, \<^verbatim>\<open>MemSeriesIterator.Next\<close>,
  \<^verbatim>\<open>Err\<close>, \<^verbatim>\<open>FlatValues\<close>, \<^verbatim>\<open>CumulativeValues\<close> and \<^verbatim>\<open>getIndexRange\<close>.
  Go's \<^verbatim>\<open>int64\<close>, \<^verbatim>\<open>uint64\<close> and \<^verbatim>\<open>uint16\<close> are machine words; \<^verbatim>\<open>int64\<close> values are
  compared with the signed order.
\<close>

type_synonym int64 = "64 word"
type_synonym uint64 = "64 word"
type_synonym uint16 = "16 word"

subsection \<open>Errors\<close>

text \<open>
  The errors that \<^verbatim>\<open>Next\<close> builds, one constructor for each message format, with the
  column name that the message carries:
  \<^item> \<open>UnexpectedEnd c\<close> is \<^verbatim>\<open>errors.New("unexpected end of c iterator")\<close>;
  \<^item> \<open>NextError c e\<close> is \<^verbatim>\<open>fmt.Errorf("next c: %w", e)\<close>;
  \<^item> \<open>WrongIteration c r g\<close> is
    \<^verbatim>\<open>fmt.Errorf("wrong iteration for c, expected: %d, got: %d", r, g)\<close>;
  \<^item> \<open>ChunkError m\<close> stands for an error that a column iterator reports by itself.
\<close>

datatype error =
    UnexpectedEnd string
  | NextError string error
  | WrongIteration string uint64 uint64
  | ChunkError string

subsection \<open>The column iterator interface\<close>

text \<open>
  \<^verbatim>\<open>MemSeriesValuesIterator\<close> is an interface: \<^verbatim>\<open>Next() bool\<close>, \<^verbatim>\<open>At() int64\<close>,
  \<^verbatim>\<open>Err() error\<close>, \<^verbatim>\<open>Read() uint64\<close>. An implementation is an object with hidden
  state; it is modelled by what can be observed of it: the three observers of the
  current state, and for \<^verbatim>\<open>Next()\<close> the returned boolean together with the object
  after the call. Every implementation of the interface is a value of this type.
\<close>

codatatype MemSeriesValuesIterator =
  ValuesIterator (Values_At: int64) (Values_Err: "error option") (Values_Read: uint64)
                 (Values_Next: "bool \<times> MemSeriesValuesIterator")

subsection \<open>The iterator tree\<close>

type_synonym Labels = "(string \<times> string list) list"
type_synonym NumLabels = "(string \<times> int64 list) list"
type_synonym NumUnits = "(string \<times> string list) list"

record MemSeriesIteratorTreeValueNode =
  Values :: MemSeriesValuesIterator
  Label :: Labels
  NumLabel :: NumLabels
  NumUnit :: NumUnits

datatype MemSeriesIteratorTreeNode =
  IteratorTreeNode (locationID: uint64)
                   (flatValues_it: "MemSeriesIteratorTreeValueNode list")
                   (cumulativeValues_it: "MemSeriesIteratorTreeValueNode list")
                   (Children_it: "MemSeriesIteratorTreeNode list")

record MemSeriesIterator =
  tree :: MemSeriesIteratorTreeNode
  timestampsIterator :: MemSeriesValuesIterator
  durationsIterator :: MemSeriesValuesIterator
  periodsIterator :: MemSeriesValuesIterator
  err :: "error option"
  numSamples_it :: uint16

subsection \<open>\<^verbatim>\<open>MemSeriesIterator.Next\<close>\<close>

text \<open>
  The two inner loops of \<^verbatim>\<open>Next\<close> (lines 184-199 over \<^verbatim>\<open>child.flatValues\<close>, lines
  201-216 over \<^verbatim>\<open>child.cumulativeValues\<close>) differ only in the column name of their
  messages, which is the parameter \<open>c\<close>. The iterators are mutated in place, so the
  list is returned as it stands when the loop stops, also when it stops on an error.
\<close>

fun Next_values ::
  "string \<Rightarrow> uint64 \<Rightarrow> MemSeriesIteratorTreeValueNode list
     \<Rightarrow> error option \<times> MemSeriesIteratorTreeValueNode list" where
  "Next_values c read [] = (None, [])"
| "Next_values c read (v # vs) =
     (case Values_Next (Values v) of
        (False, i) \<Rightarrow> (Some (UnexpectedEnd c), v\<lparr>Values := i\<rparr> # vs)
      | (True, i) \<Rightarrow>
          (case Values_Err i of
             Some e \<Rightarrow> (Some (NextError c e), v\<lparr>Values := i\<rparr> # vs)
           | None \<Rightarrow>
               if Values_Read i \<noteq> read
               then (Some (WrongIteration c read (Values_Read i)), v\<lparr>Values := i\<rparr> # vs)
               else (case Next_values c read vs of
                       (e, vs') \<Rightarrow> (e, v\<lparr>Values := i\<rparr> # vs'))))"

text \<open>
  Modelled from the spec: the tree walker \<^verbatim>\<open>NewMemSeriesIteratorTreeIterator\<close> with
  \<^verbatim>\<open>HasMore\<close>, \<^verbatim>\<open>NextChild\<close>, \<^verbatim>\<open>at\<close>, \<^verbatim>\<open>StepInto\<close> and \<^verbatim>\<open>StepUp\<close> is not among
  the sources. The specification says that \<^verbatim>\<open>Next\<close> walks the iterator tree
  depth-first, advancing each node's flat and cumulative iterators: a node is
  visited before its children, and the children from left to right. The loop body
  (lines 182-218) is the first equation; the walk stops at the first error.
\<close>

fun Next_node ::
  "uint64 \<Rightarrow> MemSeriesIteratorTreeNode \<Rightarrow> error option \<times> MemSeriesIteratorTreeNode"
and Next_children ::
  "uint64 \<Rightarrow> MemSeriesIteratorTreeNode list
     \<Rightarrow> error option \<times> MemSeriesIteratorTreeNode list" where
  "Next_node read (IteratorTreeNode l fs cs ch) =
     (case Next_values ''flat value'' read fs of
        (Some e, fs') \<Rightarrow> (Some e, IteratorTreeNode l fs' cs ch)
      | (None, fs') \<Rightarrow>
          (case Next_values ''cumulative value'' read cs of
             (Some e, cs') \<Rightarrow> (Some e, IteratorTreeNode l fs' cs' ch)
           | (None, cs') \<Rightarrow>
               (case Next_children read ch of
                  (e, ch') \<Rightarrow> (e, IteratorTreeNode l fs' cs' ch'))))"
| "Next_children read [] = (None, [])"
| "Next_children read (n # ns) =
     (case Next_node read n of
        (Some e, n') \<Rightarrow> (Some e, n' # ns)
      | (None, n') \<Rightarrow>
          (case Next_children read ns of (e, ns') \<Rightarrow> (e, n' # ns')))"

text \<open>
  \<^verbatim>\<open>Next\<close> returns its boolean and leaves the iterator mutated; the model returns
  both. The read lock of the series is not modelled.
\<close>

definition Next :: "MemSeriesIterator \<Rightarrow> bool \<times> MemSeriesIterator" where
  "Next it =
     (if numSamples_it it = 0 then (False, it)
      else case Values_Next (timestampsIterator it) of
        (False, t) \<Rightarrow>
          (False, it\<lparr>timestampsIterator := t, err := Some (UnexpectedEnd ''timestamps'')\<rparr>)
      | (True, t) \<Rightarrow>
     (case Values_Err t of
        Some e \<Rightarrow> (False, it\<lparr>timestampsIterator := t, err := Some (NextError ''timestamp'' e)\<rparr>)
      | None \<Rightarrow>
     (case Values_Next (durationsIterator it) of
        (False, d) \<Rightarrow>
          (False, it\<lparr>timestampsIterator := t, durationsIterator := d,
                      err := Some (UnexpectedEnd ''durations'')\<rparr>)
      | (True, d) \<Rightarrow>
     (case Values_Err d of
        Some e \<Rightarrow>
          (False, it\<lparr>timestampsIterator := t, durationsIterator := d,
                      err := Some (NextError ''duration'' e)\<rparr>)
      | None \<Rightarrow>
     (case Values_Next (periodsIterator it) of
        (False, p) \<Rightarrow>
          (False, it\<lparr>timestampsIterator := t, durationsIterator := d, periodsIterator := p,
                      err := Some (UnexpectedEnd ''periods'')\<rparr>)
      | (True, p) \<Rightarrow>
     (case Values_Err p of
        Some e \<Rightarrow>
          (False, it\<lparr>timestampsIterator := t, durationsIterator := d, periodsIterator := p,
                      err := Some (NextError ''period'' e)\<rparr>)
      | None \<Rightarrow>
     (let read = Values_Read t in
      if Values_Read d \<noteq> read
      then (False, it\<lparr>timestampsIterator := t, durationsIterator := d, periodsIterator := p,
                       err := Some (WrongIteration ''duration'' read (Values_Read d))\<rparr>)
      else if Values_Read p \<noteq> read
      then (False, it\<lparr>timestampsIterator := t, durationsIterator := d, periodsIterator := p,
                       err := Some (WrongIteration ''periods'' read (Values_Read p))\<rparr>)
      else (case Next_node read (tree it) of
              (Some e, n) \<Rightarrow>
                (False, it\<lparr>timestampsIterator := t, durationsIterator := d,
                            periodsIterator := p, tree := n, err := Some e\<rparr>)
            | (None, n) \<Rightarrow>
                (True, it\<lparr>timestampsIterator := t, durationsIterator := d,
                           periodsIterator := p, tree := n,
                           numSamples_it := numSamples_it it - 1\<rparr>)))))))))"

definition Err :: "MemSeriesIterator \<Rightarrow> error option" where
  "Err it = err it"

text \<open>The iterator after \<open>k\<close> calls of \<^verbatim>\<open>Next\<close>, and the booleans these calls returned.\<close>

fun Next_calls :: "nat \<Rightarrow> MemSeriesIterator \<Rightarrow> bool list \<times> MemSeriesIterator" where
  "Next_calls 0 it = ([], it)"
| "Next_calls (Suc k) it =
     (case Next it of (b, it') \<Rightarrow>
        (case Next_calls k it' of (bs, it'') \<Rightarrow> (b # bs, it'')))"

subsection \<open>\<^verbatim>\<open>FlatValues\<close> and \<^verbatim>\<open>CumulativeValues\<close>\<close>

record ProfileTreeValueNode =
  Value :: int64
  Label_v :: Labels
  NumLabel_v :: NumLabels
  NumUnit_v :: NumUnits

text \<open>Both return \<^verbatim>\<open>nil\<close>, here \<open>None\<close>, for a node without value iterators.\<close>

definition CumulativeValues :: "MemSeriesIteratorTreeNode \<Rightarrow> ProfileTreeValueNode list option" where
  "CumulativeValues n =
     (if length (cumulativeValues_it n) = 0 then None
      else Some (map (\<lambda>v. \<lparr>Value = Values_At (Values v), Label_v = Label v,
                            NumLabel_v = NumLabel v, NumUnit_v = NumUnit v\<rparr>)
                     (cumulativeValues_it n)))"

definition FlatValues :: "MemSeriesIteratorTreeNode \<Rightarrow> ProfileTreeValueNode list option" where
  "FlatValues n =
     (if length (flatValues_it n) = 0 then None
      else Some (map (\<lambda>v. \<lparr>Value = Values_At (Values v), Label_v = Label v,
                            NumLabel_v = NumLabel v, NumUnit_v = NumUnit v\<rparr>)
                     (flatValues_it n)))"

subsection \<open>\<^verbatim>\<open>getIndexRange\<close>\<close>

text \<open>
  The loop \<^verbatim>\<open>for it.Next() { ... }\<close> of lines 307-322 with its three variables. It
  ends: \<open>i\<close> counts up to \<open>numSamples\<close>, where the loop breaks. The iterator it has
  consumed is returned with the bounds, for \<^verbatim>\<open>it.Err()\<close>.
\<close>

function getIndexRange_loop ::
  "MemSeriesValuesIterator \<Rightarrow> uint16 \<Rightarrow> int64 \<Rightarrow> int64 \<Rightarrow> uint64 \<Rightarrow> uint64 \<Rightarrow> uint16
     \<Rightarrow> uint64 \<times> uint64 \<times> MemSeriesValuesIterator" where
  "getIndexRange_loop it numSamples mint maxt start end i =
     (case Values_Next it of
        (False, it') \<Rightarrow> (start, end, it')
      | (True, it') \<Rightarrow>
          if i = numSamples then (start, end + 1, it')
          else let t = Values_At it';
                   start' = (if t <s mint then start + 1 else start)
               in if t \<le>s maxt
                  then getIndexRange_loop it' numSamples mint maxt start' (end + 1) (i + 1)
                  else (start', end, it'))"
  by pat_completeness auto
termination
proof (relation "measure (\<lambda>(it, numSamples, mint, maxt, start, end, i). unat (numSamples - i))")
  show "wf (measure (\<lambda>(it, numSamples, mint, maxt, start, end, i). unat (numSamples - i)))"
    by simp
next
  fix it it' :: MemSeriesValuesIterator and numSamples i :: uint16
    and mint maxt :: int64 and start start' "end" :: uint64
  assume "i \<noteq> numSamples"
  then have nz: "numSamples - i \<noteq> 0" by simp
  have "numSamples - (i + 1) = (numSamples - i) - 1" by simp
  moreover have "unat ((numSamples - i) - 1) < unat (numSamples - i)"
    using nz by (simp add: unat_minus_one unat_gt_0)
  ultimately have "unat (numSamples - (i + 1)) < unat (numSamples - i)"
    by (simp only:)
  then show "((it', numSamples, mint, maxt, start', end + 1, i + 1),
           (it, numSamples, mint, maxt, start, end, i))
         \<in> measure (\<lambda>(it, numSamples, mint, maxt, start, end, i). unat (numSamples - i))"
    by simp
qed

definition getIndexRange ::
  "MemSeriesValuesIterator \<Rightarrow> uint16 \<Rightarrow> int64 \<Rightarrow> int64 \<Rightarrow> uint64 \<times> uint64 \<times> error option" where
  "getIndexRange it numSamples mint maxt =
     (case getIndexRange_loop it numSamples mint maxt 0 0 0 of
        (start, end, it') \<Rightarrow> (start, end, Values_Err it'))"

subsection \<open>The series and \<^verbatim>\<open>MemSeries.Iterator\<close>\<close>

text \<open>
  The value key, with the fields that \<^verbatim>\<open>TestMemSeriesTree\<close> shows. The fields of
  \<^verbatim>\<open>MemSeries\<close> are those that \<^verbatim>\<open>Iterator\<close> and the tests read.
\<close>

record ProfileTreeValueNodeKey =
  location :: string
  labels_key :: string
  numlabels :: string

text \<open>
  Modelled from the spec: the chunk codec (package \<^verbatim>\<open>chunkenc\<close>) is not among the
  sources. By the specification a chunk is a compressed buffer of up to 120 values
  whose encoding is lossless, and a column records the sample index at which it
  begins. A chunk is modelled by the values it holds and the sample index of the
  first of them, as the constructors \<^verbatim>\<open>FromValuesXOR(values...)\<close> and
  \<^verbatim>\<open>FromValuesXORAt(at, values...)\<close> of the tests give them.
\<close>

datatype Chunk = FromValuesXORAt (at_index: nat) (chunk_values: "int64 list")

definition FromValuesXOR :: "int64 list \<Rightarrow> Chunk" where
  "FromValuesXOR vs = FromValuesXORAt 0 vs"

record timestampChunk =
  chunk :: Chunk

datatype MemSeriesTreeNode =
  SeriesTreeNode (keys: "ProfileTreeValueNodeKey list") (LocationID: uint64)
                 (Children: "MemSeriesTreeNode list")

record ValueType =
  Type :: string
  Unit :: string

record MemSeries =
  periodType :: ValueType
  sampleType :: ValueType
  minTime :: int64
  maxTime :: int64
  timestamps :: "timestampChunk list"
  durations :: "Chunk list"
  periods :: "Chunk list"
  seriesTree :: "MemSeriesTreeNode option"
  numSamples :: uint16
  flatValues :: "ProfileTreeValueNodeKey \<rightharpoonup> Chunk list"
  cumulativeValues :: "ProfileTreeValueNodeKey \<rightharpoonup> Chunk list"
  labels :: "ProfileTreeValueNodeKey \<rightharpoonup> Labels"
  numLabels :: "ProfileTreeValueNodeKey \<rightharpoonup> NumLabels"
  numUnits :: "ProfileTreeValueNodeKey \<rightharpoonup> NumUnits"

text \<open>
  Modelled from the spec: \<^verbatim>\<open>NewMultiChunkIterator\<close> is not among the sources. By
  the specification the iterator over a chunk list yields the concatenated values
  of the chunks, \<^verbatim>\<open>Next()\<close> is false at the end, \<^verbatim>\<open>Read()\<close> is the number of values
  emitted so far, and it goes up once for each \<^verbatim>\<open>Next()\<close> that returns true. The
  state is the values still to come, the current value and the count.
\<close>

primcorec MultiChunkIterator :: "int64 list \<Rightarrow> int64 \<Rightarrow> uint64 \<Rightarrow> MemSeriesValuesIterator" where
  "Values_At (MultiChunkIterator xs v r) = v"
| "Values_Err (MultiChunkIterator xs v r) = None"
| "Values_Read (MultiChunkIterator xs v r) = r"
| "Values_Next (MultiChunkIterator xs v r) =
     (case xs of [] \<Rightarrow> (False, MultiChunkIterator [] v r)
               | x # xs' \<Rightarrow> (True, MultiChunkIterator xs' x (r + 1)))"

definition NewMultiChunkIterator :: "Chunk list \<Rightarrow> MemSeriesValuesIterator" where
  "NewMultiChunkIterator chunks = MultiChunkIterator (concat (map chunk_values chunks)) 0 0"

text \<open>Reading a Go map at a key it does not hold gives the zero value, \<^verbatim>\<open>nil\<close>.\<close>

definition at_key :: "('k \<rightharpoonup> 'v list) \<Rightarrow> 'k \<Rightarrow> 'v list" where
  "at_key m k = (case m k of None \<Rightarrow> [] | Some v \<Rightarrow> v)"

definition rootKey :: ProfileTreeValueNodeKey where
  "rootKey = \<lparr>location = ''0'', labels_key = [], numlabels = []\<rparr>"

definition Iterator_value ::
  "MemSeries \<Rightarrow> ProfileTreeValueNodeKey \<Rightarrow> Chunk list \<Rightarrow> MemSeriesIteratorTreeValueNode" where
  "Iterator_value s key chunks =
     \<lparr>Values = NewMultiChunkIterator chunks,
      Label = at_key (labels s) key,
      NumLabel = at_key (numLabels s) key,
      NumUnit = at_key (numUnits s) key\<rparr>"

text \<open>The loop over \<^verbatim>\<open>child.keys\<close>, lines 93-110, split into the two lists it fills.\<close>

fun Iterator_values ::
  "MemSeries \<Rightarrow> (ProfileTreeValueNodeKey \<rightharpoonup> Chunk list) \<Rightarrow> ProfileTreeValueNodeKey list
     \<Rightarrow> MemSeriesIteratorTreeValueNode list" where
  "Iterator_values s m [] = []"
| "Iterator_values s m (key # ks) =
     (case m key of
        Some chunks \<Rightarrow> Iterator_value s key chunks # Iterator_values s m ks
      | None \<Rightarrow> Iterator_values s m ks)"

text \<open>
  Modelled from the spec: the walker \<^verbatim>\<open>s.seriesTree.Iterator()\<close> that drives the loop
  of lines 83-125 is not among the sources. By the specification the iterator tree
  has the shape of the series tree: every node of the series tree below its root
  gives one node, made by lines 87-110, under the node of its parent.
\<close>

fun Iterator_node :: "MemSeries \<Rightarrow> MemSeriesTreeNode \<Rightarrow> MemSeriesIteratorTreeNode" where
  "Iterator_node s (SeriesTreeNode ks l ch) =
     IteratorTreeNode l (Iterator_values s (flatValues s) ks)
                        (Iterator_values s (cumulativeValues s) ks)
                        (map (Iterator_node s) ch)"

definition Iterator :: "MemSeries \<Rightarrow> MemSeriesIterator" where
  "Iterator s =
     \<lparr>tree = IteratorTreeNode 0 []
               [Iterator_value s rootKey (at_key (cumulativeValues s) rootKey)]
               (case seriesTree s of
                  None \<Rightarrow> []
                | Some r \<Rightarrow> map (Iterator_node s) (Children r)),
      timestampsIterator = NewMultiChunkIterator (map chunk (timestamps s)),
      durationsIterator = NewMultiChunkIterator (durations s),
      periodsIterator = NewMultiChunkIterator (periods s),
      err = None,
      numSamples_it = numSamples s\<rparr>"

section \<open>The profile tree, the appender and the truncator\<close>

text \<open>
  The sources hold the tests of the series (\<^verbatim>\<open>TestMemSeriesTree\<close>,
  \<^verbatim>\<open>TestMemSeries_truncateChunksBefore\<close>) but not the functions they call. This
  section models these functions from the specification, and follows the tests
  where they show more than the specification says.
\<close>

subsection \<open>Samples and the profile tree\<close>

text \<open>
  Modelled from the spec: the sample type and \<^verbatim>\<open>makeSample\<close> are not among the
  sources. A sample is a value, a stack of location ids with the leaf first, and
  the label payload of the leaf; \<^verbatim>\<open>makeSample(1, []uint64{2, 1})\<close> has no labels.
\<close>

record Sample =
  Value_s :: int64
  Location_s :: "uint64 list"
  Label_s :: Labels
  NumLabel_s :: NumLabels
  NumUnit_s :: NumUnits

definition makeSample :: "int64 \<Rightarrow> uint64 list \<Rightarrow> Sample" where
  "makeSample v locationIds =
     \<lparr>Value_s = v, Location_s = locationIds, Label_s = [], NumLabel_s = [], NumUnit_s = []\<rparr>"

text \<open>
  Modelled from the spec: the profile tree is not among the sources. It is a rooted
  tree whose nodes carry a location id (0 for the synthetic root), children, and
  flat and cumulative values; a value carries the label payload of its samples.
\<close>

datatype ProfileTreeNode =
  ProfileTreeNode (locationID_p: uint64)
                  (flatValues_p: "ProfileTreeValueNode list")
                  (cumulativeValues_p: "ProfileTreeValueNode list")
                  (Children_p: "ProfileTreeNode list")

definition NewProfileTree :: ProfileTreeNode where
  "NewProfileTree = ProfileTreeNode 0 [] [] []"

text \<open>
  Modelled from the spec: \<^verbatim>\<open>ProfileTree.Insert\<close> is not among the sources. A sample
  adds its value to the flat value of the leaf of its stack and to the cumulative
  value of every node from the root to that leaf, so that a node's cumulative value
  is its flat value plus the cumulative values of its children. Values of one node
  with the same label payload are added up; the values of the leaf carry the labels
  of the sample, those of the nodes above carry none (\<^verbatim>\<open>TestMemSeriesTree\<close>: the
  labelled sample counts in \<open>k1\<close> and \<open>k0\<close>). \<open>add_value\<close> adds to the value with
  the given labels.
\<close>

fun add_value ::
  "int64 \<Rightarrow> Labels \<Rightarrow> NumLabels \<Rightarrow> NumUnits \<Rightarrow> ProfileTreeValueNode list
     \<Rightarrow> ProfileTreeValueNode list" where
  "add_value v l nl nu [] = [\<lparr>Value = v, Label_v = l, NumLabel_v = nl, NumUnit_v = nu\<rparr>]"
| "add_value v l nl nu (x # xs) =
     (if Label_v x = l \<and> NumLabel_v x = nl \<and> NumUnit_v x = nu
      then x\<lparr>Value := Value x + v\<rparr> # xs
      else x # add_value v l nl nu xs)"

text \<open>
  Modelled from the spec: the lookup of a child of a profile tree node is not among
  the sources. The child with location id \<open>l\<close> is found by scanning the children, or
  a new one is made; the result is the children before it, the child, and the
  children after it. A new child stands before the first child with a greater id.
\<close>

fun split_children_p ::
  "uint64 \<Rightarrow> ProfileTreeNode list
     \<Rightarrow> ProfileTreeNode list \<times> ProfileTreeNode \<times> ProfileTreeNode list" where
  "split_children_p l [] = ([], ProfileTreeNode l [] [] [], [])"
| "split_children_p l (c # cs) =
     (if locationID_p c = l then ([], c, cs)
      else if l < locationID_p c then ([], ProfileTreeNode l [] [] [], c # cs)
      else (case split_children_p l cs of (before, n, after) \<Rightarrow> (c # before, n, after)))"

text \<open>
  Modelled from the spec: the walk of \<^verbatim>\<open>ProfileTree.Insert\<close> down the stack, given
  from the root to the leaf, as described above.
\<close>

fun Insert_path :: "uint64 list \<Rightarrow> Sample \<Rightarrow> ProfileTreeNode \<Rightarrow> ProfileTreeNode" where
  "Insert_path [] smp (ProfileTreeNode l fs cs ch) =
     ProfileTreeNode l
       (add_value (Value_s smp) (Label_s smp) (NumLabel_s smp) (NumUnit_s smp) fs)
       (add_value (Value_s smp) (Label_s smp) (NumLabel_s smp) (NumUnit_s smp) cs) ch"
| "Insert_path (x # xs) smp (ProfileTreeNode l fs cs ch) =
     (case split_children_p x ch of
        (before, n, after) \<Rightarrow>
          ProfileTreeNode l fs (add_value (Value_s smp) [] [] [] cs)
            (before @ Insert_path xs smp n # after))"

text \<open>
  Modelled from the spec: \<^verbatim>\<open>ProfileTree.Insert\<close>, see above; the stack of a sample
  has its leaf first.
\<close>

definition ProfileTree_Insert :: "Sample \<Rightarrow> ProfileTreeNode \<Rightarrow> ProfileTreeNode" where
  "ProfileTree_Insert smp pt = Insert_path (rev (Location_s smp)) smp pt"

subsection \<open>Value keys\<close>

text \<open>
  Modelled from the spec: the function that makes a value key is not among the
  sources. A key is built from the chain of location ids from the node to the root,
  written in decimal and joined with \<^verbatim>\<open>|\<close>, and from the canonical encoding of the
  string labels and of the numeric labels. The encodings are those of the key \<open>k4\<close>
  of \<^verbatim>\<open>TestMemSeriesTree\<close>: each label as its quoted name followed by its values in
  brackets (strings quoted, numbers and the bytes of the units in hexadecimal), the
  labels in the order of their encodings. \<open>digits b n\<close> writes \<open>n\<close> in base \<open>b\<close>.
\<close>

function digits :: "nat \<Rightarrow> nat \<Rightarrow> string" where
  "digits b n =
     (if b < 2 \<or> n < b then [''0123456789abcdef'' ! n]
      else digits b (n div b) @ [''0123456789abcdef'' ! (n mod b)])"
  by pat_completeness auto
termination
  by (relation "measure snd") auto

declare digits.simps [simp del]

text \<open>Modelled from the spec: a location id in decimal, for the key.\<close>

definition FormatUint :: "uint64 \<Rightarrow> string" where
  "FormatUint l = digits 10 (unat l)"

text \<open>Modelled from the spec: a numeric label value in hexadecimal, for the key.\<close>

definition hex_int64 :: "int64 \<Rightarrow> string" where
  "hex_int64 v = (if v <s 0 then ''-'' @ digits 16 (nat (- sint v)) else digits 16 (unat v))"

text \<open>Modelled from the spec: the bytes of a unit in hexadecimal, for the key.\<close>

definition hex_string :: "string \<Rightarrow> string" where
  "hex_string s = concat (map (\<lambda>c. [''0123456789abcdef'' ! (of_char c div 16),
                                     ''0123456789abcdef'' ! (of_char c mod 16)]) s)"

text \<open>Modelled from the spec: strings joined with a separator, for the key.\<close>

fun Join :: "string list \<Rightarrow> string \<Rightarrow> string" where
  "Join [] sep = []"
| "Join [x] sep = x"
| "Join (x # y # ys) sep = x @ sep @ Join (y # ys) sep"

text \<open>
  Modelled from the spec: a string between double quotes, for the key (for strings
  that need no escape).
\<close>

definition quoted :: "string \<Rightarrow> string" where
  "quoted s = CHR 0x22 # s @ [CHR 0x22]"

text \<open>Modelled from the spec: a list between brackets, for the key.\<close>

definition bracketed :: "string list \<Rightarrow> string" where
  "bracketed xs = ''['' @ Join xs '' '' @ '']''"

text \<open>Modelled from the spec: the value key of a value of a node, see above.\<close>

definition makeKey :: "uint64 list \<Rightarrow> ProfileTreeValueNode \<Rightarrow> ProfileTreeValueNodeKey" where
  "makeKey locationIDs n =
     \<lparr>location = Join (map FormatUint locationIDs) ''|'',
      labels_key =
        Join (sort (map (\<lambda>(k, v). quoted k @ bracketed (map quoted v)) (Label_v n))) [],
      numlabels =
        Join (sort (map (\<lambda>(k, v). quoted k @ bracketed (map hex_int64 v) @
                                   bracketed (map hex_string (at_key (map_of (NumUnit_v n)) k)))
                        (NumLabel_v n))) []\<rparr>"

subsection \<open>Writing to the columns\<close>

text \<open>Modelled from the spec: the capacity of a chunk, 120 samples.\<close>

definition samplesPerChunk :: nat where
  "samplesPerChunk = 120"

text \<open>
  Modelled from the spec: the appender of a column is not among the sources. A value
  written at a sample index goes to the trailing chunk of the column; when that
  chunk is full, or the column has no chunk, a new chunk is allocated, which begins
  at this sample index.
\<close>

definition push_value :: "nat \<Rightarrow> int64 \<Rightarrow> Chunk list \<Rightarrow> Chunk list" where
  "push_value index v chunks =
     (if chunks = [] \<or> samplesPerChunk \<le> length (chunk_values (last chunks))
      then chunks @ [FromValuesXORAt index [v]]
      else butlast chunks @
           [FromValuesXORAt (at_index (last chunks)) (chunk_values (last chunks) @ [v])])"


text \<open>Modelled from the spec: a value written to the column of a key.\<close>

definition write_value ::
  "nat \<Rightarrow> ProfileTreeValueNodeKey \<Rightarrow> int64
     \<Rightarrow> (ProfileTreeValueNodeKey \<rightharpoonup> Chunk list) \<Rightarrow> (ProfileTreeValueNodeKey \<rightharpoonup> Chunk list)" where
  "write_value index key v m = m(key \<mapsto> push_value index v (at_key m key))"

text \<open>
  Modelled from the spec: the label maps hold the label payload of a key, set when
  the key is first seen with labels.
\<close>

definition set_first :: "'k \<Rightarrow> 'v list \<Rightarrow> ('k \<rightharpoonup> 'v list) \<Rightarrow> ('k \<rightharpoonup> 'v list)" where
  "set_first key l m = (if m key = None \<and> l \<noteq> [] then m(key \<mapsto> l) else m)"

text \<open>Modelled from the spec: the three label maps, set for one key.\<close>

definition store_labels :: "ProfileTreeValueNodeKey \<Rightarrow> ProfileTreeValueNode \<Rightarrow> MemSeries \<Rightarrow> MemSeries" where
  "store_labels key n s =
     s\<lparr>labels := set_first key (Label_v n) (labels s),
       numLabels := set_first key (NumLabel_v n) (numLabels s),
       numUnits := set_first key (NumUnit_v n) (numUnits s)\<rparr>"

text \<open>Modelled from the spec: a key is stored on the node of the series tree once.\<close>

definition add_key ::
  "ProfileTreeValueNodeKey \<Rightarrow> ProfileTreeValueNodeKey list \<Rightarrow> ProfileTreeValueNodeKey list" where
  "add_key key ks = (if key \<in> set ks then ks else ks @ [key])"

subsection \<open>\<^verbatim>\<open>MemSeriesTree.Insert\<close>\<close>

text \<open>
  Modelled from the spec: \<^verbatim>\<open>MemSeriesTree.Insert\<close> is not among the sources. It
  walks the profile tree depth-first; for each of its nodes it finds or makes the
  node of the series tree with the same location id, stores the value keys on it,
  and writes every flat value of the node to the flat column of its key and every
  cumulative value to the cumulative column of its key, at the sample index. A key
  that the profile does not touch is not written. \<open>Insert_flat\<close> writes the flat
  values of one node.
\<close>

fun Insert_flat ::
  "nat \<Rightarrow> uint64 list \<Rightarrow> ProfileTreeValueNode list
     \<Rightarrow> ProfileTreeValueNodeKey list \<times> MemSeries \<Rightarrow> ProfileTreeValueNodeKey list \<times> MemSeries" where
  "Insert_flat index ids [] (ks, s) = (ks, s)"
| "Insert_flat index ids (n # ns) (ks, s) =
     (let key = makeKey ids n
      in Insert_flat index ids ns
           (add_key key ks,
            store_labels key n (s\<lparr>flatValues := write_value index key (Value n) (flatValues s)\<rparr>)))"

text \<open>Modelled from the spec: the same for the cumulative values of one node.\<close>

fun Insert_cumulative ::
  "nat \<Rightarrow> uint64 list \<Rightarrow> ProfileTreeValueNode list
     \<Rightarrow> ProfileTreeValueNodeKey list \<times> MemSeries \<Rightarrow> ProfileTreeValueNodeKey list \<times> MemSeries" where
  "Insert_cumulative index ids [] (ks, s) = (ks, s)"
| "Insert_cumulative index ids (n # ns) (ks, s) =
     (let key = makeKey ids n
      in Insert_cumulative index ids ns
           (add_key key ks,
            store_labels key n
              (s\<lparr>cumulativeValues := write_value index key (Value n) (cumulativeValues s)\<rparr>)))"

text \<open>
  Modelled from the spec: the lookup of a child of a series tree node: by equality
  of the location id, scanning the children. The specification keeps the children
  in insertion order; \<^verbatim>\<open>TestMemSeriesTree\<close> (lines 151-168) shows the child 3, made
  last, between the children 2 and 4, so a new child stands before the first child
  with a greater id.
\<close>

fun split_children ::
  "uint64 \<Rightarrow> MemSeriesTreeNode list
     \<Rightarrow> MemSeriesTreeNode list \<times> MemSeriesTreeNode \<times> MemSeriesTreeNode list" where
  "split_children l [] = ([], SeriesTreeNode [] l [], [])"
| "split_children l (c # cs) =
     (if LocationID c = l then ([], c, cs)
      else if l < LocationID c then ([], SeriesTreeNode [] l [], c # cs)
      else (case split_children l cs of (before, n, after) \<Rightarrow> (c # before, n, after)))"

text \<open>
  Modelled from the spec: the walk of \<^verbatim>\<open>MemSeriesTree.Insert\<close>, see above; \<open>ids\<close> is
  the chain of location ids from the node to the root.
\<close>

fun Insert_node ::
  "nat \<Rightarrow> uint64 list \<Rightarrow> ProfileTreeNode \<Rightarrow> MemSeriesTreeNode \<Rightarrow> MemSeries
     \<Rightarrow> MemSeriesTreeNode \<times> MemSeries"
and Insert_children ::
  "nat \<Rightarrow> uint64 list \<Rightarrow> ProfileTreeNode list \<Rightarrow> MemSeriesTreeNode list \<Rightarrow> MemSeries
     \<Rightarrow> MemSeriesTreeNode list \<times> MemSeries" where
  "Insert_node index ids (ProfileTreeNode l fs cs ch) sn s =
     (case Insert_flat index ids fs (keys sn, s) of
        (ks1, s1) \<Rightarrow>
     (case Insert_cumulative index ids cs (ks1, s1) of
        (ks2, s2) \<Rightarrow>
     (case Insert_children index ids ch (Children sn) s2 of
        (sch, s3) \<Rightarrow> (SeriesTreeNode ks2 (LocationID sn) sch, s3))))"
| "Insert_children index ids [] sch s = (sch, s)"
| "Insert_children index ids (pc # pcs) sch s =
     (case split_children (locationID_p pc) sch of
        (before, sn, after) \<Rightarrow>
     (case Insert_node index (locationID_p pc # ids) pc sn s of
        (sn', s1) \<Rightarrow> Insert_children index ids pcs (before @ sn' # after) s1))"

text \<open>
  Modelled from the spec: \<^verbatim>\<open>MemSeriesTree.Insert(index, profileTree)\<close>, see above.
  The root of the series tree is made by the first call. The model has no encoding
  failure, so the error that \<^verbatim>\<open>Insert\<close> returns is always \<^verbatim>\<open>nil\<close>.
\<close>

definition Insert :: "nat \<Rightarrow> ProfileTreeNode \<Rightarrow> MemSeries \<Rightarrow> MemSeries" where
  "Insert index profileTree s =
     (case Insert_node index [0] profileTree
             (case seriesTree s of None \<Rightarrow> SeriesTreeNode [] 0 [] | Some r \<Rightarrow> r) s of
        (root, s') \<Rightarrow> s'\<lparr>seriesTree := Some root\<rparr>)"

subsection \<open>The series and its appender\<close>

text \<open>Modelled from the spec: \<^verbatim>\<open>math.MinInt64\<close>, the least timestamp.\<close>

definition math_MinInt64 :: int64 where
  "math_MinInt64 = - (2 ^ 63)"

text \<open>
  Modelled from the spec: \<^verbatim>\<open>NewMemSeries\<close> is not among the sources. A new series
  has no sample, no value column and no tree; each dense column has one chunk, still
  empty, as the dense columns have after a truncation of all their chunks
  (\<^verbatim>\<open>TestMemSeries_truncateChunksBefore\<close>).
\<close>

definition NewMemSeries :: MemSeries where
  "NewMemSeries =
     \<lparr>periodType = \<lparr>Type = [], Unit = []\<rparr>, sampleType = \<lparr>Type = [], Unit = []\<rparr>,
      minTime = math_MinInt64, maxTime = math_MinInt64,
      timestamps = [\<lparr>chunk = FromValuesXORAt 0 []\<rparr>],
      durations = [FromValuesXORAt 0 []],
      periods = [FromValuesXORAt 0 []],
      seriesTree = None,
      numSamples = 0,
      flatValues = Map.empty, cumulativeValues = Map.empty,
      labels = Map.empty, numLabels = Map.empty, numUnits = Map.empty\<rparr>"






subsection \<open>\<^verbatim>\<open>truncateChunksBefore\<close>\<close>





section \<open>Notions for stating the properties\<close>

text \<open>
  What \<^verbatim>\<open>Next\<close> does to one value iterator of the tree, lines 185-198 and 202-215:
  the error it reports for the column named \<open>c\<close>, if any.
\<close>

definition check :: "string \<Rightarrow> uint64 \<Rightarrow> MemSeriesValuesIterator \<Rightarrow> error option" where
  "check c read i =
     (case Values_Next i of
        (False, i') \<Rightarrow> Some (UnexpectedEnd c)
      | (True, i') \<Rightarrow>
          (case Values_Err i' of
             Some e \<Rightarrow> Some (NextError c e)
           | None \<Rightarrow> if Values_Read i' \<noteq> read
                     then Some (WrongIteration c read (Values_Read i')) else None))"

text \<open>The value iterators of a tree in the order of the walk, each with its column name.\<close>

fun node_columns :: "MemSeriesIteratorTreeNode \<Rightarrow> (string \<times> MemSeriesValuesIterator) list" where
  "node_columns (IteratorTreeNode l fs cs ch) =
     map (\<lambda>v. (''flat value'', Values v)) fs @
     map (\<lambda>v. (''cumulative value'', Values v)) cs @
     concat (map node_columns ch)"

fun first_failure :: "uint64 \<Rightarrow> (string \<times> MemSeriesValuesIterator) list \<Rightarrow> error option" where
  "first_failure read [] = None"
| "first_failure read ((c, i) # cs) =
     (case check c read i of Some e \<Rightarrow> Some e | None \<Rightarrow> first_failure read cs)"

fun advance ::
  "uint64 \<Rightarrow> (string \<times> MemSeriesValuesIterator) list
     \<Rightarrow> (string \<times> MemSeriesValuesIterator) list" where
  "advance read [] = []"
| "advance read ((c, i) # cs) =
     (c, snd (Values_Next i)) # (if check c read i = None then advance read cs else cs)"

text \<open>All column iterators of a series iterator: the three dense ones, then the tree's.\<close>

definition column_iterators :: "MemSeriesIterator \<Rightarrow> MemSeriesValuesIterator list" where
  "column_iterators it =
     timestampsIterator it # durationsIterator it # periodsIterator it #
     map snd (node_columns (tree it))"

text \<open>
  \<open>has_values n r i\<close>: the iterator \<open>i\<close> holds \<open>n\<close> more values: each of the next \<open>n\<close>
  calls of \<^verbatim>\<open>Next()\<close> returns true without an error, and \<^verbatim>\<open>Read()\<close> counts them on
  from \<open>r\<close>.
\<close>

fun has_values :: "nat \<Rightarrow> uint64 \<Rightarrow> MemSeriesValuesIterator \<Rightarrow> bool" where
  "has_values 0 r i = True"
| "has_values (Suc n) r i =
     (case Values_Next i of
        (b, i') \<Rightarrow> b \<and> Values_Err i' = None \<and> Values_Read i' = r + 1 \<and> has_values n (r + 1) i')"

text \<open>\<open>yields it ts\<close>: the iterator yields exactly the values \<open>ts\<close>, then ends.\<close>

fun yields :: "MemSeriesValuesIterator \<Rightarrow> int64 list \<Rightarrow> bool" where
  "yields it [] = (\<not> fst (Values_Next it))"
| "yields it (x # xs) =
     (case Values_Next it of (b, it') \<Rightarrow> b \<and> Values_At it' = x \<and> yields it' xs)"

text \<open>The bounds that the loop of \<^verbatim>\<open>getIndexRange\<close> computes, on the list of timestamps.\<close>

fun index_range :: "int64 \<Rightarrow> int64 \<Rightarrow> int64 list \<Rightarrow> nat \<times> nat" where
  "index_range mint maxt [] = (0, 0)"
| "index_range mint maxt (t # ts) =
     (let a = (if t <s mint then 1 else 0)
      in if t \<le>s maxt
         then (case index_range mint maxt ts of (s, e) \<Rightarrow> (a + s, Suc e))
         else (a, 0))"

text \<open>
  \<open>advanced i\<close>: the next \<^verbatim>\<open>Next()\<close> of the iterator returns true and \<^verbatim>\<open>Err()\<close> is
  \<^verbatim>\<open>nil\<close> after it. \<open>passes read i\<close>: moreover \<^verbatim>\<open>Read()\<close> is then \<open>read\<close>.
\<close>

definition advanced :: "MemSeriesValuesIterator \<Rightarrow> bool" where
  "advanced i = (fst (Values_Next i) \<and> Values_Err (snd (Values_Next i)) = None)"

definition passes :: "uint64 \<Rightarrow> MemSeriesValuesIterator \<Rightarrow> bool" where
  "passes read i = (advanced i \<and> Values_Read (snd (Values_Next i)) = read)"

text \<open>
  \<open>column_fault read i e\<close>: the error \<open>e\<close> reports what the next \<^verbatim>\<open>Next()\<close> of the
  column iterator \<open>i\<close> shows: it ends, it reports an error, or its \<^verbatim>\<open>Read()\<close> is not
  \<open>read\<close>.
\<close>

definition column_fault :: "uint64 \<Rightarrow> MemSeriesValuesIterator \<Rightarrow> error \<Rightarrow> bool" where
  "column_fault read i e =
     (case Values_Next i of
        (False, i') \<Rightarrow> (\<exists>c. e = UnexpectedEnd c)
      | (True, i') \<Rightarrow>
          (case Values_Err i' of
             Some e' \<Rightarrow> (\<exists>c. e = NextError c e')
           | None \<Rightarrow> Values_Read i' \<noteq> read \<and> (\<exists>c. e = WrongIteration c read (Values_Read i'))))"

text \<open>
  The contract of the interface, as its comments state it, for the next \<open>k\<close> calls: a
  \<^verbatim>\<open>Next()\<close> that returns true leaves \<^verbatim>\<open>Err()\<close> \<^verbatim>\<open>nil\<close> and raises \<^verbatim>\<open>Read()\<close> by one;
  after a \<^verbatim>\<open>Next()\<close> that returns false, \<^verbatim>\<open>Next()\<close> returns false again.
\<close>

fun keeps_contract :: "nat \<Rightarrow> MemSeriesValuesIterator \<Rightarrow> bool" where
  "keeps_contract 0 i = True"
| "keeps_contract (Suc k) i =
     (case Values_Next i of
        (b, i') \<Rightarrow>
          (if b then Values_Err i' = None \<and> Values_Read i' = Values_Read i + 1
           else \<not> fst (Values_Next i')) \<and>
          keeps_contract k i')"

text \<open>
  A series iterator is stuck when one of its columns has ended or stands at another
  count than the timestamps.
\<close>

definition stuck :: "MemSeriesIterator \<Rightarrow> bool" where
  "stuck it =
     ((\<exists>i\<in>set (column_iterators it). \<not> fst (Values_Next i)) \<or>
      (\<exists>i\<in>set (column_iterators it). Values_Read i \<noteq> Values_Read (timestampsIterator it)))"




text \<open>The values that a list of writes holds for a key, in order; none if the key is not touched.\<close>

definition written :: "('k \<times> int64) list \<Rightarrow> 'k \<Rightarrow> int64 list" where
  "written kvs key = map snd (filter (\<lambda>kv. fst kv = key) kvs)"

text \<open>A list of writes done at one sample index on a family of columns.\<close>

definition write_all ::
  "nat \<Rightarrow> (ProfileTreeValueNodeKey \<times> int64) list
     \<Rightarrow> (ProfileTreeValueNodeKey \<rightharpoonup> Chunk list) \<Rightarrow> (ProfileTreeValueNodeKey \<rightharpoonup> Chunk list)" where
  "write_all i kvs m = fold (\<lambda>kv. write_value i (fst kv) (snd kv)) kvs m"







section \<open>A series of two samples\<close>

text \<open>
  The series that \<^verbatim>\<open>TestMemSeries_truncateChunksBefore\<close> builds, cut to two samples:
  the sample of value 1 with the stack 2, 1 appended at the timestamps 1 and 2. All
  its columns hold two values.
\<close>

definition k0 :: ProfileTreeValueNodeKey where
  "k0 = \<lparr>location = ''0'', labels_key = [], numlabels = []\<rparr>"

definition k1 :: ProfileTreeValueNodeKey where
  "k1 = \<lparr>location = ''1|0'', labels_key = [], numlabels = []\<rparr>"

definition k2 :: ProfileTreeValueNodeKey where
  "k2 = \<lparr>location = ''2|1|0'', labels_key = [], numlabels = []\<rparr>"

definition example_series :: MemSeries where
  "example_series =
     \<lparr>periodType = \<lparr>Type = [], Unit = []\<rparr>, sampleType = \<lparr>Type = [], Unit = []\<rparr>,
      minTime = 1, maxTime = 2,
      timestamps = [\<lparr>chunk = FromValuesXOR [1, 2]\<rparr>],
      durations = [FromValuesXOR [0, 0]],
      periods = [FromValuesXOR [0, 0]],
      seriesTree = Some (SeriesTreeNode [k0] 0 [SeriesTreeNode [k1] 1 [SeriesTreeNode [k2] 2 []]]),
      numSamples = 2,
      flatValues = [k2 \<mapsto> [FromValuesXOR [1, 1]]],
      cumulativeValues = [k0 \<mapsto> [FromValuesXOR [1, 1]], k1 \<mapsto> [FromValuesXOR [1, 1]], k2 \<mapsto> [FromValuesXOR [1, 1]]],
      labels = Map.empty, numLabels = Map.empty, numUnits = Map.empty\<rparr>"

text \<open>
  The same series with a sparse flat column: the key \<open>k2\<close> holds one value only.
\<close>

definition sparse_series :: MemSeries where
  "sparse_series = example_series\<lparr>flatValues := [k2 \<mapsto> [FromValuesXOR [1]]]\<rparr>"

text \<open>
  Iterators over the series of two samples with one column read once before the
  first call of \<^verbatim>\<open>Next\<close>: the durations, the periods, and the cumulative values under
  location 1.
\<close>

definition desync_iterator :: MemSeriesIterator where
  "desync_iterator =
     (Iterator example_series)
       \<lparr>durationsIterator := snd (Values_Next (durationsIterator (Iterator example_series)))\<rparr>"

definition periods_ahead_iterator :: MemSeriesIterator where
  "periods_ahead_iterator =
     (Iterator example_series)
       \<lparr>periodsIterator := snd (Values_Next (periodsIterator (Iterator example_series)))\<rparr>"

definition value_ahead_iterator :: MemSeriesIterator where
  "value_ahead_iterator =
     (Iterator example_series)
       \<lparr>tree := IteratorTreeNode 0 []
          [\<lparr>Values = NewMultiChunkIterator [FromValuesXOR [1, 1]], Label = [], NumLabel = [], NumUnit = []\<rparr>]
          [IteratorTreeNode 1 []
             [\<lparr>Values = snd (Values_Next (NewMultiChunkIterator [FromValuesXOR [1, 1]])),
               Label = [], NumLabel = [], NumUnit = []\<rparr>] []]\<rparr>"

section \<open>Profiles of two stacks\<close>

text \<open>
  The samples and profile trees of \<^verbatim>\<open>TestMemSeriesTree\<close>: \<open>s11\<close> of value 1 with the
  stack 2, 1 and \<open>s12\<close> of value 2 with the stack 4, 1 and the string labels
  \<^verbatim>\<open>{"foo": ["bar", "baz"]}\<close> make the first tree; \<open>s3\<close> of value 3 with the stack
  2, 1 makes the second. \<open>k4\<close> is the key of the labelled value under location 4.
\<close>

definition s11 :: Sample where
  "s11 = makeSample 1 [2, 1]"

definition s12 :: Sample where
  "s12 = (makeSample 2 [4, 1])\<lparr>Label_s := [(''foo'', [''bar'', ''baz''])]\<rparr>"

definition pt1 :: ProfileTreeNode where
  "pt1 = ProfileTree_Insert s12 (ProfileTree_Insert s11 NewProfileTree)"

definition k4 :: ProfileTreeValueNodeKey where
  "k4 = \<lparr>location = ''4|1|0'',
          labels_key = quoted ''foo'' @ ''['' @ quoted ''bar'' @ '' '' @ quoted ''baz'' @ '']'',
          numlabels = []\<rparr>"

definition s3 :: Sample where
  "s3 = makeSample 3 [2, 1]"






text \<open>
  The profiles of \<^verbatim>\<open>TestMemSeries_truncateChunksBefore\<close>: the tree of the sample of
  value 1 with the stack 2, 1, appended at the timestamps 1 to 500.
\<close>

definition pt :: ProfileTreeNode where
  "pt = ProfileTree_Insert s11 NewProfileTree"


section \<open>Properties\<close>

subsection \<open>The walk of the tree, seen on the list of its columns\<close>

lemma first_failure_append:
  "first_failure r (xs @ ys) =
     (case first_failure r xs of Some e \<Rightarrow> Some e | None \<Rightarrow> first_failure r ys)"
  by (induction xs) (auto split: option.splits)

lemma advance_append:
  "advance r (xs @ ys) =
     (if first_failure r xs = None then advance r xs @ advance r ys else advance r xs @ ys)"
  by (induction xs) (auto split: option.splits)

lemma Next_values_failure:
  "fst (Next_values c r vs) = first_failure r (map (\<lambda>v. (c, Values v)) vs)"
  by (induction vs) (auto simp: check_def split: prod.splits bool.splits option.splits)

lemma Next_values_advance:
  "map (\<lambda>v. (c, Values v)) (snd (Next_values c r vs)) = advance r (map (\<lambda>v. (c, Values v)) vs)"
  by (induction vs) (auto simp: check_def split: prod.splits bool.splits option.splits)

lemma Next_values_length: "length (snd (Next_values c r vs)) = length vs"
  by (induction vs) (auto split: prod.splits bool.splits option.splits)

lemma Next_node_failure:
  "fst (Next_node r n) = first_failure r (node_columns n)"
  "fst (Next_children r ns) = first_failure r (concat (map node_columns ns))"
proof (induction r n and r ns rule: Next_node_Next_children.induct)
  case (1 read l fs cs ch)
  then show ?case
    using Next_values_failure [of "''flat value''" read fs]
          Next_values_failure [of "''cumulative value''" read cs]
    by (auto simp: first_failure_append split: prod.splits option.splits)
next
  case (2 read)
  then show ?case by simp
next
  case (3 read n ns)
  then show ?case
    by (auto simp: first_failure_append split: prod.splits option.splits)
qed

lemma Next_node_advance:
  "node_columns (snd (Next_node r n)) = advance r (node_columns n)"
  "concat (map node_columns (snd (Next_children r ns))) = advance r (concat (map node_columns ns))"
proof (induction r n and r ns rule: Next_node_Next_children.induct)
  case (1 read l fs cs ch)
  then show ?case
    using Next_values_failure [of "''flat value''" read fs]
          Next_values_failure [of "''cumulative value''" read cs]
          Next_values_advance [of "''flat value''" read fs]
          Next_values_advance [of "''cumulative value''" read cs]
    by (auto simp: advance_append split: prod.splits option.splits)
next
  case (2 read)
  then show ?case by simp
next
  case (3 read n ns)
  then show ?case
    using Next_node_failure(1) [of read n]
    by (auto simp: advance_append split: prod.splits option.splits)
qed

lemma Next_node_root_lengths:
  "length (flatValues_it (snd (Next_node r n))) = length (flatValues_it n)"
  "length (cumulativeValues_it (snd (Next_node r n))) = length (cumulativeValues_it n)"
  using Next_values_length [of "''flat value''" r "flatValues_it n"]
        Next_values_length [of "''cumulative value''" r "cumulativeValues_it n"]
  by (cases n; auto split: prod.splits option.splits)+

lemmas example_defs = example_series_def k0_def k1_def k2_def Iterator_def Iterator_value_def
  NewMultiChunkIterator_def FromValuesXOR_def at_key_def rootKey_def column_iterators_def

lemma Next_calls_Suc:
  "snd (Next_calls (Suc k) it) = snd (Next_calls k (snd (Next it)))"
  "fst (Next_calls (Suc k) it) = fst (Next it) # fst (Next_calls k (snd (Next it)))"
  by (simp_all split: prod.splits)

lemma Next_zero: "numSamples_it it = 0 \<Longrightarrow> Next it = (False, it)"
  by (simp add: Next_def)

subsection \<open>The root of the iterator tree\<close>

lemma Next_root_lengths:
  "length (flatValues_it (tree (snd (Next it)))) = length (flatValues_it (tree it))"
  "length (cumulativeValues_it (tree (snd (Next it)))) = length (cumulativeValues_it (tree it))"
  using Next_node_root_lengths [of "Values_Read (snd (Values_Next (timestampsIterator it)))" "tree it"]
  by (auto simp: Next_def Let_def split: prod.splits bool.splits option.splits)

lemma Next_calls_root_lengths:
  "length (flatValues_it (tree (snd (Next_calls k it)))) = length (flatValues_it (tree it)) \<and>
   length (cumulativeValues_it (tree (snd (Next_calls k it)))) =
     length (cumulativeValues_it (tree it))"
proof (induction k arbitrary: it)
  case 0
  show ?case by simp
next
  case (Suc k)
  show ?case
    unfolding Next_calls_Suc using Suc [of "snd (Next it)"]
    by (simp only: Next_root_lengths)
qed

text \<open>
  Claim C9. For every series \<open>s\<close>, the root of the tree that \<^verbatim>\<open>Iterator\<close> builds has
  no flat value iterator and exactly one cumulative value iterator, the one of the
  root key \<^verbatim>\<open>"0"\<close>; so after any number \<open>k\<close> of calls of \<^verbatim>\<open>Next\<close>, whatever they
  returned, \<^verbatim>\<open>FlatValues\<close> of the root is \<^verbatim>\<open>nil\<close> and \<^verbatim>\<open>CumulativeValues\<close> of the
  root has exactly one entry.
\<close>

theorem Iterator_root_values:
  "flatValues_it (tree (Iterator s)) = [] \<and>
   cumulativeValues_it (tree (Iterator s)) =
     [Iterator_value s rootKey (at_key (cumulativeValues s) rootKey)] \<and>
   FlatValues (tree (snd (Next_calls k (Iterator s)))) = None \<and>
   (\<exists>v. CumulativeValues (tree (snd (Next_calls k (Iterator s)))) = Some [v])"
proof -
  have f: "flatValues_it (tree (Iterator s)) = []"
    and c: "cumulativeValues_it (tree (Iterator s)) =
      [Iterator_value s rootKey (at_key (cumulativeValues s) rootKey)]"
    by (simp_all add: Iterator_def)
  have "length (flatValues_it (tree (snd (Next_calls k (Iterator s))))) = 0"
    using Next_calls_root_lengths [of k "Iterator s"] f by simp
  then have 1: "FlatValues (tree (snd (Next_calls k (Iterator s)))) = None"
    by (simp add: FlatValues_def)
  have "length (cumulativeValues_it (tree (snd (Next_calls k (Iterator s))))) = 1"
    using Next_calls_root_lengths [of k "Iterator s"] c by simp
  then obtain w where "cumulativeValues_it (tree (snd (Next_calls k (Iterator s)))) = [w]"
    by (auto simp: length_Suc_conv)
  then have 2: "\<exists>v. CumulativeValues (tree (snd (Next_calls k (Iterator s)))) = Some [v]"
    by (simp add: CumulativeValues_def)
  from f c 1 2 show ?thesis by blast
qed

subsection \<open>A run over columns that hold all their values\<close>

lemma first_failure_None:
  "first_failure r cs = None \<longleftrightarrow> (\<forall>x\<in>set cs. check (fst x) r (snd x) = None)"
  by (induction cs) (auto split: option.splits)

lemma advance_all:
  "first_failure r cs = None \<Longrightarrow> advance r cs = map (\<lambda>x. (fst x, snd (Values_Next (snd x)))) cs"
  by (induction cs) (auto split: option.splits)

lemma has_values_Suc:
  assumes "has_values (Suc n) r i"
  obtains i' where "Values_Next i = (True, i')" "Values_Err i' = None"
    "Values_Read i' = r + 1" "has_values n (r + 1) i'"
  using assms by (cases "Values_Next i") auto

lemma has_values_check:
  "has_values (Suc n) r i \<Longrightarrow> check c (r + 1) i = None"
  by (erule has_values_Suc) (simp add: check_def)

lemma Next_success:
  assumes ns: "numSamples_it it \<noteq> 0"
    and hv: "\<forall>i\<in>set (column_iterators it). has_values (Suc n) r i"
  shows "fst (Next it) = True"
    and "numSamples_it (snd (Next it)) = numSamples_it it - 1"
    and "err (snd (Next it)) = err it"
    and "\<forall>i\<in>set (column_iterators (snd (Next it))). has_values n (r + 1) i"
proof -
  from hv have "has_values (Suc n) r (timestampsIterator it)"
    by (simp add: column_iterators_def)
  then obtain t where t: "Values_Next (timestampsIterator it) = (True, t)"
    "Values_Err t = None" "Values_Read t = r + 1" "has_values n (r + 1) t"
    by (rule has_values_Suc)
  from hv have "has_values (Suc n) r (durationsIterator it)"
    by (simp add: column_iterators_def)
  then obtain d where d: "Values_Next (durationsIterator it) = (True, d)"
    "Values_Err d = None" "Values_Read d = r + 1" "has_values n (r + 1) d"
    by (rule has_values_Suc)
  from hv have "has_values (Suc n) r (periodsIterator it)"
    by (simp add: column_iterators_def)
  then obtain p where p: "Values_Next (periodsIterator it) = (True, p)"
    "Values_Err p = None" "Values_Read p = r + 1" "has_values n (r + 1) p"
    by (rule has_values_Suc)
  from hv have cols: "\<forall>x\<in>set (node_columns (tree it)). has_values (Suc n) r (snd x)"
    by (simp add: column_iterators_def)
  then have ff: "first_failure (r + 1) (node_columns (tree it)) = None"
    unfolding first_failure_None using has_values_check by blast
  obtain e n' where n': "Next_node (r + 1) (tree it) = (e, n')"
    by (cases "Next_node (r + 1) (tree it)")
  with ff Next_node_failure(1) [of "r + 1" "tree it"] have e: "e = None" by simp
  have cols': "node_columns n' =
      map (\<lambda>x. (fst x, snd (Values_Next (snd x)))) (node_columns (tree it))"
    using Next_node_advance(1) [of "r + 1" "tree it"] n' advance_all [OF ff] by simp
  have nx: "Next it = (True, it\<lparr>timestampsIterator := t, durationsIterator := d,
       periodsIterator := p, tree := n', numSamples_it := numSamples_it it - 1\<rparr>)"
    by (simp add: Next_def ns t d p n' e)
  show "fst (Next it) = True" "numSamples_it (snd (Next it)) = numSamples_it it - 1"
    "err (snd (Next it)) = err it"
    by (simp_all add: nx)
  have "\<forall>x\<in>set (node_columns (tree it)). has_values n (r + 1) (snd (Values_Next (snd x)))"
    using cols has_values_Suc by (metis snd_conv)
  then show "\<forall>i\<in>set (column_iterators (snd (Next it))). has_values n (r + 1) i"
    by (auto simp: nx column_iterators_def cols' t d p)
qed

lemma Next_calls_has_values:
  "unat (numSamples_it it) = n \<Longrightarrow> \<forall>i\<in>set (column_iterators it). has_values n r i \<Longrightarrow>
   fst (Next_calls k it) = replicate (min k n) True @ replicate (k - n) False \<and>
   unat (numSamples_it (snd (Next_calls k it))) = n - k \<and>
   err (snd (Next_calls k it)) = err it"
proof (induction k arbitrary: it n r)
  case 0
  then show ?case by simp
next
  case (Suc k)
  show ?case
  proof (cases n)
    case 0
    with Suc.prems(1) have z: "numSamples_it it = 0" by (simp add: unat_eq_0)
    then have nx: "Next it = (False, it)" by (rule Next_zero)
    from Suc.IH [of it 0 r] z 0 show ?thesis
      unfolding Next_calls_Suc by (simp add: nx)
  next
    case (Suc m)
    with Suc.prems(1) have nz: "numSamples_it it \<noteq> 0" by auto
    from Suc.prems(2) have hv: "\<forall>i\<in>set (column_iterators it). has_values (Suc m) r i"
      using Suc by simp
    note step = Next_success [OF nz hv]
    have "unat (numSamples_it (snd (Next it))) = m"
      using step(2) nz Suc.prems(1) Suc by (simp add: unat_minus_one)
    from Suc.IH [OF this step(4)] show ?thesis
      unfolding Next_calls_Suc using step(1) step(3) Suc by simp
  qed
qed

text \<open>
  Claim C1. Let every column iterator of a series iterator (timestamps, durations,
  periods and every flat and cumulative value iterator of the tree) hold
  \<^verbatim>\<open>numSamples\<close> values, counted by \<^verbatim>\<open>Read()\<close> from a common start \<open>r\<close>. Then of any
  \<open>k\<close> calls of \<^verbatim>\<open>Next\<close> the first \<^verbatim>\<open>numSamples\<close> return true and all later ones return
  false, and the counter of remaining samples goes down by one with each call that
  returns true, until it is zero.
\<close>

theorem Next_true_numSamples_times:
  assumes "\<forall>i\<in>set (column_iterators it). has_values (unat (numSamples_it it)) r i"
  shows "fst (Next_calls k it) =
           replicate (min k (unat (numSamples_it it))) True @
           replicate (k - unat (numSamples_it it)) False \<and>
         unat (numSamples_it (snd (Next_calls k it))) = unat (numSamples_it it) - k"
  using Next_calls_has_values [OF refl assms, of k] by simp

theorem Next_true_numSamples_times_witness:
  "fst (Next_calls 4 (Iterator example_series)) = [True, True, False, False] \<and>
   unat (numSamples_it (snd (Next_calls 4 (Iterator example_series)))) = 0"
proof -
  have n: "unat (numSamples_it (Iterator example_series)) = Suc (Suc 0)"
    by (simp add: example_defs)
  have "\<forall>i\<in>set (column_iterators (Iterator example_series)). has_values (Suc (Suc 0)) 0 i"
    by (simp add: example_defs)
  then have "\<forall>i\<in>set (column_iterators (Iterator example_series)).
          has_values (unat (numSamples_it (Iterator example_series))) 0 i"
    by (simp only: n)
  from Next_true_numSamples_times [OF this, of 4] show ?thesis
    by (simp add: n numeral_2_eq_2)
qed

subsection \<open>\<^verbatim>\<open>getIndexRange\<close> on increasing timestamps\<close>

lemma index_range_bounds:
  "fst (index_range mint maxt ts) \<le> length ts \<and> snd (index_range mint maxt ts) \<le> length ts"
  by (induction ts) (auto simp: Let_def split: prod.splits)

lemma getIndexRange_loop_yields:
  "yields it ts \<Longrightarrow> unat i + length ts = unat ns \<Longrightarrow>
   (case getIndexRange_loop it ns mint maxt start end i of
      (s, e, it') \<Rightarrow> (s, e)) =
   (start + of_nat (fst (index_range mint maxt ts)),
    end + of_nat (snd (index_range mint maxt ts)))"
proof (induction ts arbitrary: it start "end" i)
  case Nil
  then show ?case
    by (subst getIndexRange_loop.simps) (auto split: prod.splits)
next
  case (Cons t ts)
  obtain b it' where nx: "Values_Next it = (b, it')" by (cases "Values_Next it")
  with Cons.prems(1) have b: "b" and at: "Values_At it' = t" and ys: "yields it' ts"
    by auto
  from Cons.prems(2) have lt: "unat i < unat ns" by simp
  then have ne: "i \<noteq> ns" by auto
  have "unat ns < 2 ^ 16"
    using unsigned_less [of ns, where 'a = nat] by simp
  then have "unat i + 1 < 2 ^ 16"
    using lt by simp
  then have suc: "unat (i + 1) = unat i + 1"
    by (simp add: unat_word_ariths)
  with Cons.prems(2) have len: "unat (i + 1) + length ts = unat ns" by simp
  show ?case
  proof (cases "t \<le>s maxt")
    case True
    show ?thesis
      using Cons.IH [OF ys len, of "if t <s mint then start + 1 else start" "end + 1"]
      by (subst getIndexRange_loop.simps)
         (auto simp: nx b at ne True Let_def split: prod.splits)
  next
    case False
    show ?thesis
      by (subst getIndexRange_loop.simps)
         (auto simp: nx b at ne False Let_def split: prod.splits)
  qed
qed

lemma index_range_none_below:
  "\<forall>x\<in>set ts. \<not> x <s mint \<Longrightarrow> fst (index_range mint maxt ts) = 0"
  by (induction ts) (auto simp: Let_def split: prod.splits)

lemma index_range_sorted:
  "sorted_wrt (<s) ts \<Longrightarrow> j < length ts \<Longrightarrow>
   (fst (index_range mint maxt ts) \<le> j \<and> j < snd (index_range mint maxt ts))
     = (mint \<le>s ts ! j \<and> ts ! j \<le>s maxt)"
proof (induction ts arbitrary: j)
  case Nil
  then show ?case by simp
next
  case (Cons t ts)
  have later: "\<forall>x\<in>set ts. t <s x" and sorted: "sorted_wrt (<s) ts"
    using Cons.prems(1) by auto
  show ?case
  proof (cases "t \<le>s maxt")
    case False
    have "\<not> (t # ts) ! j \<le>s maxt"
    proof (cases j)
      case 0
      then show ?thesis using False by simp
    next
      case (Suc j')
      then have "ts ! j' \<in> set ts" using Cons.prems(2) by simp
      then have "t <s ts ! j'" using later by blast
      then show ?thesis using False Suc
        by (simp add: word_sless_alt word_sle_eq)
    qed
    then show ?thesis using False by (simp add: Let_def)
  next
    case True
    show ?thesis
    proof (cases j)
      case 0
      show ?thesis
      proof (cases "t <s mint")
        case True
        then show ?thesis using 0 \<open>t \<le>s maxt\<close>
          by (auto simp: Let_def word_sless_alt word_sle_eq split: prod.splits)
      next
        case False
        then have "\<forall>x\<in>set ts. \<not> x <s mint"
          using later by (auto simp: word_sless_alt word_sle_eq)
        then have "fst (index_range mint maxt ts) = 0"
          by (rule index_range_none_below)
        then show ?thesis using 0 False \<open>t \<le>s maxt\<close>
          by (auto simp: Let_def word_sless_alt word_sle_eq split: prod.splits)
      qed
    next
      case (Suc j')
      then have j': "j' < length ts" using Cons.prems(2) by simp
      note IH = Cons.IH [OF sorted j']
      show ?thesis
      proof (cases "t <s mint")
        case True
        then show ?thesis using Suc IH \<open>t \<le>s maxt\<close>
          by (auto simp: Let_def split: prod.splits)
      next
        case False
        then have "\<forall>x\<in>set ts. \<not> x <s mint"
          using later by (auto simp: word_sless_alt word_sle_eq)
        then have "fst (index_range mint maxt ts) = 0"
          by (rule index_range_none_below)
        then show ?thesis using Suc IH False \<open>t \<le>s maxt\<close>
          by (auto simp: Let_def split: prod.splits)
      qed
    qed
  qed
qed

text \<open>
  Claim C8. Let the timestamps iterator yield exactly the \<^verbatim>\<open>numSamples\<close> values \<open>ts\<close>,
  strictly increasing in the signed order, and let \<^verbatim>\<open>getIndexRange\<close> return the
  bounds \<open>start\<close> and \<open>end\<close>. Then the sample indices \<open>j\<close> with \<open>start \<le> j < end\<close> are
  precisely those whose timestamp lies between \<open>mint\<close> and \<open>maxt\<close>, both included.
\<close>

theorem getIndexRange_bounds:
  assumes "yields it ts" and "length ts = unat ns" and "sorted_wrt (<s) ts"
    and "getIndexRange it ns mint maxt = (start, end, e)"
    and "j < length ts"
  shows "(unat start \<le> j \<and> j < unat end) = (mint \<le>s ts ! j \<and> ts ! j \<le>s maxt)"
proof -
  let ?s = "fst (index_range mint maxt ts)" and ?e = "snd (index_range mint maxt ts)"
  have "unat (0 :: uint16) + length ts = unat ns" using assms(2) by simp
  from getIndexRange_loop_yields [OF assms(1) this, of mint maxt 0 0] assms(4)
  have se: "start = of_nat ?s" "end = of_nat ?e"
    by (auto simp: getIndexRange_def split: prod.splits)
  have "length ts < 2 ^ 16"
    using assms(2) unsigned_less [of ns, where 'a = nat] by simp
  then have "?s < 2 ^ 64" "?e < 2 ^ 64"
    using index_range_bounds [of mint maxt ts] by auto
  then have "unat start = ?s" "unat end = ?e"
    using se by (simp_all add: unat_of_nat)
  then show ?thesis
    using index_range_sorted [OF assms(3) assms(5), of mint maxt] by simp
qed

theorem getIndexRange_bounds_witness:
  "getIndexRange (MultiChunkIterator [1, 2, 3, 5, 8] 0 0) 5 2 5 = (1, 4, None) \<and>
   ((unat (1 :: uint64) \<le> 2 \<and> 2 < unat (4 :: uint64))
      = ((2 :: int64) \<le>s [1, 2, 3, 5, 8] ! 2 \<and> [1, 2, 3, 5, 8 :: int64] ! 2 \<le>s 5))"
proof -
  have y: "yields (MultiChunkIterator [1, 2, 3, 5, 8] 0 0) [1, 2, 3, 5, 8]"
    by simp
  have l: "length [1, 2, 3, 5, 8 :: int64] = unat (5 :: uint16)"
    by simp
  have s: "sorted_wrt (<s) [1, 2, 3, 5, 8 :: int64]"
    by (simp add: word_sless_alt)
  have g: "getIndexRange (MultiChunkIterator [1, 2, 3, 5, 8] 0 0) 5 2 5 = (1, 4, None)"
    by (simp add: getIndexRange_def word_sless_alt word_sle_eq)
  have j: "2 < length [1, 2, 3, 5, 8 :: int64]"
    by simp
  from getIndexRange_bounds [OF y l s g j] g show ?thesis
    by simp
qed

subsection \<open>One call of \<^verbatim>\<open>Next\<close>, by the first check that fails\<close>

lemma check_None: "check c r i = None \<longleftrightarrow> passes r i"
  by (auto simp: check_def passes_def advanced_def split: prod.splits bool.splits option.splits)

lemma first_failure_split:
  assumes "\<forall>x\<in>set pre. passes r (snd x)"
  shows "first_failure r (pre @ (c, i) # post) =
     (case check c r i of Some e \<Rightarrow> Some e | None \<Rightarrow> first_failure r post)"
proof -
  have "first_failure r pre = None"
    using assms by (simp add: first_failure_None check_None)
  then show ?thesis by (simp add: first_failure_append)
qed

lemma column_names:
  "(c, i) \<in> set (node_columns n) \<Longrightarrow> c = ''flat value'' \<or> c = ''cumulative value''"
  by (induction n arbitrary: c i) auto

lemma Next_dense_advanced:
  assumes "numSamples_it it \<noteq> 0"
    and "advanced (timestampsIterator it)" and "advanced (durationsIterator it)"
    and "advanced (periodsIterator it)"
  shows "Next it =
    (let t = snd (Values_Next (timestampsIterator it));
         d = snd (Values_Next (durationsIterator it));
         p = snd (Values_Next (periodsIterator it));
         read = Values_Read t;
         it' = it\<lparr>timestampsIterator := t, durationsIterator := d, periodsIterator := p\<rparr>
     in if Values_Read d \<noteq> read
        then (False, it'\<lparr>err := Some (WrongIteration ''duration'' read (Values_Read d))\<rparr>)
        else if Values_Read p \<noteq> read
        then (False, it'\<lparr>err := Some (WrongIteration ''periods'' read (Values_Read p))\<rparr>)
        else (case first_failure read (node_columns (tree it)) of
                Some e \<Rightarrow> (False, it'\<lparr>tree := snd (Next_node read (tree it)), err := Some e\<rparr>)
              | None \<Rightarrow> (True, it'\<lparr>tree := snd (Next_node read (tree it)),
                                   numSamples_it := numSamples_it it - 1\<rparr>)))"
proof -
  obtain t where t: "Values_Next (timestampsIterator it) = (True, t)" "Values_Err t = None"
    using assms(2) by (cases "Values_Next (timestampsIterator it)") (auto simp: advanced_def)
  obtain d where d: "Values_Next (durationsIterator it) = (True, d)" "Values_Err d = None"
    using assms(3) by (cases "Values_Next (durationsIterator it)") (auto simp: advanced_def)
  obtain p where p: "Values_Next (periodsIterator it) = (True, p)" "Values_Err p = None"
    using assms(4) by (cases "Values_Next (periodsIterator it)") (auto simp: advanced_def)
  obtain e n where n: "Next_node (Values_Read t) (tree it) = (e, n)"
    by (cases "Next_node (Values_Read t) (tree it)")
  then have e: "first_failure (Values_Read t) (node_columns (tree it)) = e"
    using Next_node_failure(1) [of "Values_Read t" "tree it"] by simp
  show ?thesis
    by (cases e) (simp_all add: Next_def assms(1) t d p n e Let_def)
qed

lemma check_fault: "check c r i = Some e \<Longrightarrow> column_fault r i e"
  by (auto simp: check_def column_fault_def split: prod.splits bool.splits option.splits if_splits)

lemma first_failure_Some:
  "first_failure r cs = Some e \<Longrightarrow>
   \<exists>c i. (c, i) \<in> set cs \<and> check c r i = Some e \<and> (c, snd (Values_Next i)) \<in> set (advance r cs)"
proof (induction cs)
  case Nil
  then show ?case by simp
next
  case (Cons x cs)
  obtain c i where x: "x = (c, i)" by (cases x)
  show ?case
  proof (cases "check c r i")
    case None
    with Cons x show ?thesis by auto
  next
    case (Some e')
    with Cons.prems x have "e' = e" by simp
    with Some x show ?thesis by auto
  qed
qed

lemma advance_set:
  "x \<in> set (advance r cs) \<Longrightarrow>
   (\<exists>y\<in>set cs. snd x = snd y) \<or> (\<exists>y\<in>set cs. snd x = snd (Values_Next (snd y)))"
  by (induction cs) (fastforce split: if_splits)+

text \<open>The outcome of a call with a counter that is not zero, by the first check that fails.\<close>

lemma Next_cases:
  assumes nz: "numSamples_it it \<noteq> 0"
  obtains
    (ts_end) t where "Values_Next (timestampsIterator it) = (False, t)"
      "Next it = (False, it\<lparr>timestampsIterator := t, err := Some (UnexpectedEnd ''timestamps'')\<rparr>)"
  | (ts_err) t e where "Values_Next (timestampsIterator it) = (True, t)" "Values_Err t = Some e"
      "Next it = (False, it\<lparr>timestampsIterator := t, err := Some (NextError ''timestamp'' e)\<rparr>)"
  | (d_end) t d where "Values_Next (timestampsIterator it) = (True, t)" "Values_Err t = None"
      "Values_Next (durationsIterator it) = (False, d)"
      "Next it = (False, it\<lparr>timestampsIterator := t, durationsIterator := d,
                            err := Some (UnexpectedEnd ''durations'')\<rparr>)"
  | (d_err) t d e where "Values_Next (timestampsIterator it) = (True, t)" "Values_Err t = None"
      "Values_Next (durationsIterator it) = (True, d)" "Values_Err d = Some e"
      "Next it = (False, it\<lparr>timestampsIterator := t, durationsIterator := d,
                            err := Some (NextError ''duration'' e)\<rparr>)"
  | (p_end) t d p where "Values_Next (timestampsIterator it) = (True, t)" "Values_Err t = None"
      "Values_Next (durationsIterator it) = (True, d)" "Values_Err d = None"
      "Values_Next (periodsIterator it) = (False, p)"
      "Next it = (False, it\<lparr>timestampsIterator := t, durationsIterator := d,
                            periodsIterator := p, err := Some (UnexpectedEnd ''periods'')\<rparr>)"
  | (p_err) t d p e where "Values_Next (timestampsIterator it) = (True, t)" "Values_Err t = None"
      "Values_Next (durationsIterator it) = (True, d)" "Values_Err d = None"
      "Values_Next (periodsIterator it) = (True, p)" "Values_Err p = Some e"
      "Next it = (False, it\<lparr>timestampsIterator := t, durationsIterator := d,
                            periodsIterator := p, err := Some (NextError ''period'' e)\<rparr>)"
  | (d_read) t d p where "Values_Next (timestampsIterator it) = (True, t)" "Values_Err t = None"
      "Values_Next (durationsIterator it) = (True, d)" "Values_Err d = None"
      "Values_Next (periodsIterator it) = (True, p)" "Values_Err p = None"
      "Values_Read d \<noteq> Values_Read t"
      "Next it = (False, it\<lparr>timestampsIterator := t, durationsIterator := d,
          periodsIterator := p,
          err := Some (WrongIteration ''duration'' (Values_Read t) (Values_Read d))\<rparr>)"
  | (p_read) t d p where "Values_Next (timestampsIterator it) = (True, t)" "Values_Err t = None"
      "Values_Next (durationsIterator it) = (True, d)" "Values_Err d = None"
      "Values_Next (periodsIterator it) = (True, p)" "Values_Err p = None"
      "Values_Read d = Values_Read t" "Values_Read p \<noteq> Values_Read t"
      "Next it = (False, it\<lparr>timestampsIterator := t, durationsIterator := d,
          periodsIterator := p,
          err := Some (WrongIteration ''periods'' (Values_Read t) (Values_Read p))\<rparr>)"
  | (tree_err) t d p e n where "Values_Next (timestampsIterator it) = (True, t)" "Values_Err t = None"
      "Values_Next (durationsIterator it) = (True, d)" "Values_Err d = None"
      "Values_Next (periodsIterator it) = (True, p)" "Values_Err p = None"
      "Values_Read d = Values_Read t" "Values_Read p = Values_Read t"
      "Next_node (Values_Read t) (tree it) = (Some e, n)"
      "Next it = (False, it\<lparr>timestampsIterator := t, durationsIterator := d,
          periodsIterator := p, tree := n, err := Some e\<rparr>)"
  | (ok) t d p n where "Values_Next (timestampsIterator it) = (True, t)" "Values_Err t = None"
      "Values_Next (durationsIterator it) = (True, d)" "Values_Err d = None"
      "Values_Next (periodsIterator it) = (True, p)" "Values_Err p = None"
      "Values_Read d = Values_Read t" "Values_Read p = Values_Read t"
      "Next_node (Values_Read t) (tree it) = (None, n)"
      "Next it = (True, it\<lparr>timestampsIterator := t, durationsIterator := d,
          periodsIterator := p, tree := n, numSamples_it := numSamples_it it - 1\<rparr>)"
proof -
  obtain bt t where t: "Values_Next (timestampsIterator it) = (bt, t)"
    by (cases "Values_Next (timestampsIterator it)")
  obtain bd d where d: "Values_Next (durationsIterator it) = (bd, d)"
    by (cases "Values_Next (durationsIterator it)")
  obtain bp p where p: "Values_Next (periodsIterator it) = (bp, p)"
    by (cases "Values_Next (periodsIterator it)")
  obtain e n where n: "Next_node (Values_Read t) (tree it) = (e, n)"
    by (cases "Next_node (Values_Read t) (tree it)")
  show thesis
  proof (cases bt)
    case False
    with t show ?thesis by (intro ts_end [of t]) (simp_all add: Next_def nz)
  next
    case bt: True
    show ?thesis
    proof (cases "Values_Err t")
      case (Some e')
      with t bt show ?thesis by (intro ts_err [of t e']) (simp_all add: Next_def nz)
    next
      case et: None
      show ?thesis
      proof (cases bd)
        case False
        with t bt et d show ?thesis by (intro d_end [of t d]) (simp_all add: Next_def nz)
      next
        case bd: True
        show ?thesis
        proof (cases "Values_Err d")
          case (Some e')
          with t bt et d bd show ?thesis
            by (intro d_err [of t d e']) (simp_all add: Next_def nz)
        next
          case ed: None
          show ?thesis
          proof (cases bp)
            case False
            with t bt et d bd ed p show ?thesis
              by (intro p_end [of t d p]) (simp_all add: Next_def nz)
          next
            case bp: True
            show ?thesis
            proof (cases "Values_Err p")
              case (Some e')
              with t bt et d bd ed p bp show ?thesis
                by (intro p_err [of t d p e']) (simp_all add: Next_def nz)
            next
              case ep: None
              show ?thesis
              proof (cases "Values_Read d = Values_Read t")
                case False
                with t bt et d bd ed p bp ep show ?thesis
                  by (intro d_read [of t d p]) (simp_all add: Next_def nz)
              next
                case rd: True
                show ?thesis
                proof (cases "Values_Read p = Values_Read t")
                  case False
                  with t bt et d bd ed p bp ep rd show ?thesis
                    by (intro p_read [of t d p]) (simp_all add: Next_def nz)
                next
                  case rp: True
                  show ?thesis
                  proof (cases e)
                    case None
                    with t bt et d bd ed p bp ep rd rp n show ?thesis
                      by (intro ok [of t d p n]) (simp_all add: Next_def nz)
                  next
                    case (Some e')
                    with t bt et d bd ed p bp ep rd rp n show ?thesis
                      by (intro tree_err [of t d p e' n]) (simp_all add: Next_def nz)
                  qed
                qed
              qed
            qed
          qed
        qed
      qed
    qed
  qed
qed


subsection \<open>Columns that keep the contract of the interface\<close>

lemma keeps_contract_Suc:
  "keeps_contract (Suc k) i \<longleftrightarrow>
     (if fst (Values_Next i)
      then Values_Err (snd (Values_Next i)) = None \<and>
           Values_Read (snd (Values_Next i)) = Values_Read i + 1
      else \<not> fst (Values_Next (snd (Values_Next i)))) \<and>
     keeps_contract k (snd (Values_Next i))"
  by (cases "Values_Next i") simp

lemma keeps_contract_mono: "keeps_contract (Suc k) i \<Longrightarrow> keeps_contract k i"
proof (induction k arbitrary: i)
  case 0
  show ?case by simp
next
  case (Suc k)
  from Suc.prems have a: "keeps_contract (Suc k) (snd (Values_Next i))"
    by (subst (asm) keeps_contract_Suc) simp
  from Suc.prems have b: "if fst (Values_Next i)
      then Values_Err (snd (Values_Next i)) = None \<and>
           Values_Read (snd (Values_Next i)) = Values_Read i + 1
      else \<not> fst (Values_Next (snd (Values_Next i)))"
    by (subst (asm) keeps_contract_Suc) simp
  from Suc.IH [OF a] b show ?case
    by (subst keeps_contract_Suc) simp
qed

lemma keeps_contract_one: "keeps_contract (Suc k) i \<Longrightarrow> keeps_contract (Suc 0) i"
  by (simp only: keeps_contract_Suc keeps_contract.simps(1)) simp

lemma keeps_contract_Next: "keeps_contract (Suc k) i \<Longrightarrow> keeps_contract k (snd (Values_Next i))"
  by (simp only: keeps_contract_Suc)

lemma contract_True:
  "keeps_contract (Suc 0) i \<Longrightarrow> Values_Next i = (True, i') \<Longrightarrow>
   Values_Err i' = None \<and> Values_Read i' = Values_Read i + 1"
  by simp

lemma contract_False:
  "keeps_contract (Suc 0) i \<Longrightarrow> Values_Next i = (False, i') \<Longrightarrow> \<not> fst (Values_Next i')"
  by simp


lemma Next_columns:
  assumes "i' \<in> set (column_iterators (snd (Next it)))"
  shows "i' \<in> set (column_iterators it) \<or> (\<exists>i\<in>set (column_iterators it). i' = snd (Values_Next i))"
proof (cases "numSamples_it it = 0")
  case True
  with assms show ?thesis by (simp add: Next_zero)
next
  case False
  let ?ts = "timestampsIterator it" and ?d = "durationsIterator it" and ?p = "periodsIterator it"
  have dense: "x \<in> {?ts, ?d, ?p, snd (Values_Next ?ts), snd (Values_Next ?d), snd (Values_Next ?p)}
      \<Longrightarrow> x \<in> set (column_iterators it) \<or> (\<exists>i\<in>set (column_iterators it). x = snd (Values_Next i))"
    for x
    by (auto simp: column_iterators_def)
  have old: "x \<in> snd ` set (node_columns (tree it))
      \<Longrightarrow> x \<in> set (column_iterators it) \<or> (\<exists>i\<in>set (column_iterators it). x = snd (Values_Next i))"
    for x
    by (auto simp: column_iterators_def)
  have new: "x \<in> set (column_iterators it) \<or> (\<exists>i\<in>set (column_iterators it). x = snd (Values_Next i))"
    if "Next_node r (tree it) = (e, n)" and "x \<in> snd ` set (node_columns n)" for r e n x
  proof -
    from that obtain y where "y \<in> set (advance r (node_columns (tree it)))" "x = snd y"
      using Next_node_advance(1) [of r "tree it"] by auto
    with advance_set [of y r "node_columns (tree it)"] show ?thesis
      by (auto simp: column_iterators_def)
  qed
  from False show ?thesis
  proof (cases rule: Next_cases)
    case (ts_end t)
    with assms have "i' \<in> {?ts, ?d, ?p, snd (Values_Next ?ts)} \<or> i' \<in> snd ` set (node_columns (tree it))"
      by (auto simp: column_iterators_def)
    with dense old show ?thesis by blast
  next
    case (ts_err t e)
    with assms have "i' \<in> {?ts, ?d, ?p, snd (Values_Next ?ts)} \<or> i' \<in> snd ` set (node_columns (tree it))"
      by (auto simp: column_iterators_def)
    with dense old show ?thesis by blast
  next
    case (d_end t d)
    with assms have "i' \<in> {?p, snd (Values_Next ?ts), snd (Values_Next ?d)} \<or> i' \<in> snd ` set (node_columns (tree it))"
      by (auto simp: column_iterators_def)
    with dense old show ?thesis by blast
  next
    case (d_err t d e)
    with assms have "i' \<in> {?p, snd (Values_Next ?ts), snd (Values_Next ?d)} \<or> i' \<in> snd ` set (node_columns (tree it))"
      by (auto simp: column_iterators_def)
    with dense old show ?thesis by blast
  next
    case (p_end t d p)
    with assms have "i' \<in> {snd (Values_Next ?ts), snd (Values_Next ?d), snd (Values_Next ?p)} \<or> i' \<in> snd ` set (node_columns (tree it))"
      by (auto simp: column_iterators_def)
    with dense old show ?thesis by blast
  next
    case (p_err t d p e)
    with assms have "i' \<in> {snd (Values_Next ?ts), snd (Values_Next ?d), snd (Values_Next ?p)} \<or> i' \<in> snd ` set (node_columns (tree it))"
      by (auto simp: column_iterators_def)
    with dense old show ?thesis by blast
  next
    case (d_read t d p)
    with assms have "i' \<in> {snd (Values_Next ?ts), snd (Values_Next ?d), snd (Values_Next ?p)} \<or> i' \<in> snd ` set (node_columns (tree it))"
      by (auto simp: column_iterators_def)
    with dense old show ?thesis by blast
  next
    case (p_read t d p)
    with assms have "i' \<in> {snd (Values_Next ?ts), snd (Values_Next ?d), snd (Values_Next ?p)} \<or> i' \<in> snd ` set (node_columns (tree it))"
      by (auto simp: column_iterators_def)
    with dense old show ?thesis by blast
  next
    case (tree_err t d p e n)
    with assms have "i' \<in> {snd (Values_Next ?ts), snd (Values_Next ?d), snd (Values_Next ?p)} \<or> i' \<in> snd ` set (node_columns n)"
      by (auto simp: column_iterators_def)
    with dense new [OF tree_err(9)] show ?thesis by blast
  next
    case (ok t d p n)
    with assms have "i' \<in> {snd (Values_Next ?ts), snd (Values_Next ?d), snd (Values_Next ?p)} \<or> i' \<in> snd ` set (node_columns n)"
      by (auto simp: column_iterators_def)
    with dense new [OF ok(9)] show ?thesis by blast
  qed
qed


lemma Next_keeps_contract:
  assumes "\<forall>i\<in>set (column_iterators it). keeps_contract (Suc k) i"
  shows "\<forall>i\<in>set (column_iterators (snd (Next it))). keeps_contract k i"
proof
  fix i' assume "i' \<in> set (column_iterators (snd (Next it)))"
  from Next_columns [OF this] show "keeps_contract k i'"
  proof
    assume "i' \<in> set (column_iterators it)"
    with assms show ?thesis using keeps_contract_mono by blast
  next
    assume "\<exists>i\<in>set (column_iterators it). i' = snd (Values_Next i)"
    with assms show ?thesis using keeps_contract_Next by blast
  qed
qed

lemma failed_stuck:
  assumes nz: "numSamples_it it \<noteq> 0" and f: "\<not> fst (Next it)"
    and kc: "\<forall>i\<in>set (column_iterators it). keeps_contract (Suc 0) i"
  shows "stuck (snd (Next it))"
proof -
  from kc have kt: "keeps_contract (Suc 0) (timestampsIterator it)"
    and kd: "keeps_contract (Suc 0) (durationsIterator it)"
    and kp: "keeps_contract (Suc 0) (periodsIterator it)"
    and kn: "\<forall>x\<in>set (node_columns (tree it)). keeps_contract (Suc 0) (snd x)"
    by (simp_all add: column_iterators_def)
  from nz show ?thesis
  proof (cases rule: Next_cases)
    case (ts_end t)
    from contract_False [OF kt ts_end(1)] have "\<not> fst (Values_Next t)" .
    then show ?thesis
      by (simp add: ts_end(2) stuck_def column_iterators_def)
  next
    case (ts_err t e)
    with contract_True [OF kt ts_err(1)] show ?thesis by simp
  next
    case (d_end t d)
    from contract_False [OF kd d_end(3)] have "\<not> fst (Values_Next d)" .
    then show ?thesis
      by (simp add: d_end(4) stuck_def column_iterators_def)
  next
    case (d_err t d e)
    with contract_True [OF kd d_err(3)] show ?thesis by simp
  next
    case (p_end t d p)
    from contract_False [OF kp p_end(5)] have "\<not> fst (Values_Next p)" .
    then show ?thesis
      by (simp add: p_end(6) stuck_def column_iterators_def)
  next
    case (p_err t d p e)
    with contract_True [OF kp p_err(5)] show ?thesis by simp
  next
    case (d_read t d p)
    then show ?thesis by (simp add: stuck_def column_iterators_def)
  next
    case (p_read t d p)
    then show ?thesis by (simp add: stuck_def column_iterators_def)
  next
    case (tree_err t d p e n)
    let ?r = "Values_Read t"
    have "first_failure ?r (node_columns (tree it)) = Some e"
      using Next_node_failure(1) [of ?r "tree it"] tree_err(9) by simp
    from first_failure_Some [OF this] obtain c i where
      ci: "(c, i) \<in> set (node_columns (tree it))" "check c ?r i = Some e"
      "(c, snd (Values_Next i)) \<in> set (advance ?r (node_columns (tree it)))"
      by blast
    have "node_columns n = advance ?r (node_columns (tree it))"
      using Next_node_advance(1) [of ?r "tree it"] tree_err(9) by simp
    with ci(3) have mem: "snd (Values_Next i) \<in> snd ` set (node_columns n)"
      by force
    from ci(1) kn have ki: "keeps_contract (Suc 0) i" by auto
    obtain b i' where i': "Values_Next i = (b, i')" by (cases "Values_Next i")
    have "\<not> fst (Values_Next i') \<or> Values_Read i' \<noteq> ?r"
    proof (cases b)
      case False
      with contract_False [OF ki] i' show ?thesis by simp
    next
      case True
      with contract_True [OF ki] i' have "Values_Err i' = None" by simp
      with ci(2) i' True show ?thesis
        by (auto simp: check_def split: if_splits)
    qed
    with mem i' have "(\<exists>x\<in>snd ` set (node_columns n). \<not> fst (Values_Next x)) \<or>
        (\<exists>x\<in>snd ` set (node_columns n). Values_Read x \<noteq> ?r)"
      by auto
    then show ?thesis
      by (auto simp: tree_err(10) stuck_def column_iterators_def)
  next
    case (ok t d p n)
    with f show ?thesis by simp
  qed
qed


lemma stuck_Next_False:
  assumes st: "stuck it"
    and kc: "\<forall>i\<in>set (column_iterators it). keeps_contract (Suc 0) i"
  shows "\<not> fst (Next it)"
proof (cases "numSamples_it it = 0")
  case True
  then show ?thesis by (simp add: Next_zero)
next
  case False
  from kc have kt: "keeps_contract (Suc 0) (timestampsIterator it)"
    and kd: "keeps_contract (Suc 0) (durationsIterator it)"
    and kp: "keeps_contract (Suc 0) (periodsIterator it)"
    and kn: "\<forall>x\<in>set (node_columns (tree it)). keeps_contract (Suc 0) (snd x)"
    by (simp_all add: column_iterators_def)
  from False show ?thesis
  proof (cases rule: Next_cases)
    case (ok t d p n)
    let ?r = "Values_Read t"
    have rt: "?r = Values_Read (timestampsIterator it) + 1"
      using contract_True [OF kt ok(1)] by simp
    have rd: "Values_Read (durationsIterator it) = Values_Read (timestampsIterator it)"
      using contract_True [OF kd ok(3)] ok(7) rt by simp
    have rp: "Values_Read (periodsIterator it) = Values_Read (timestampsIterator it)"
      using contract_True [OF kp ok(5)] ok(8) rt by simp
    have "first_failure ?r (node_columns (tree it)) = None"
      using Next_node_failure(1) [of ?r "tree it"] ok(9) by simp
    then have pass: "\<forall>x\<in>set (node_columns (tree it)). passes ?r (snd x)"
      by (simp add: first_failure_None check_None)
    have rn: "fst (Values_Next (snd x)) \<and> Values_Read (snd x) = Values_Read (timestampsIterator it)"
      if "x \<in> set (node_columns (tree it))" for x
    proof -
      obtain b i' where i': "Values_Next (snd x) = (b, i')" by (cases "Values_Next (snd x)")
      from pass that i' have b: "b" and r: "Values_Read i' = ?r"
        by (auto simp: passes_def advanced_def)
      from kn that have "keeps_contract (Suc 0) (snd x)" by blast
      from contract_True [OF this] i' b have "Values_Read i' = Values_Read (snd x) + 1" by simp
      with r rt i' b show ?thesis by simp
    qed
    have "\<not> stuck it"
      using ok(1) ok(3) ok(5) rd rp rn by (auto simp: stuck_def column_iterators_def)
    with st show ?thesis by simp
  qed simp_all
qed

lemma Next_False_counter: "\<not> fst (Next it) \<Longrightarrow> numSamples_it (snd (Next it)) = numSamples_it it"
proof (cases "numSamples_it it = 0")
  case True
  then show ?thesis by (simp add: Next_zero)
next
  case False
  assume "\<not> fst (Next it)"
  with False show ?thesis by (cases rule: Next_cases) simp_all
qed

lemma Next_err_kept: "err it \<noteq> None \<Longrightarrow> err (snd (Next it)) \<noteq> None"
proof (cases "numSamples_it it = 0")
  case True
  assume "err it \<noteq> None"
  with True show ?thesis by (simp add: Next_zero)
next
  case False
  assume "err it \<noteq> None"
  with False show ?thesis by (cases rule: Next_cases) simp_all
qed

lemma stuck_calls:
  "stuck it \<Longrightarrow> \<forall>i\<in>set (column_iterators it). keeps_contract k i \<Longrightarrow>
   fst (Next_calls k it) = replicate k False \<and>
   numSamples_it (snd (Next_calls k it)) = numSamples_it it \<and>
   (err it \<noteq> None \<longrightarrow> err (snd (Next_calls k it)) \<noteq> None)"
proof (induction k arbitrary: it)
  case 0
  then show ?case by simp
next
  case (Suc k)
  from Suc.prems(2) have one: "\<forall>i\<in>set (column_iterators it). keeps_contract (Suc 0) i"
    using keeps_contract_one by blast
  have f: "\<not> fst (Next it)" using stuck_Next_False [OF Suc.prems(1) one] .
  have st: "stuck (snd (Next it))"
  proof (cases "numSamples_it it = 0")
    case True
    with Suc.prems(1) show ?thesis by (simp add: Next_zero)
  next
    case False
    from failed_stuck [OF False f one] show ?thesis .
  qed
  from Suc.IH [OF st Next_keeps_contract [OF Suc.prems(2)]] f
    Next_False_counter [OF f] Next_err_kept [of it]
  show ?case unfolding Next_calls_Suc by simp
qed


lemmas example_its = sparse_series_def desync_iterator_def periods_ahead_iterator_def
  value_ahead_iterator_def

subsection \<open>The errors of a call\<close>

text \<open>
  Claim C6. In a call of \<^verbatim>\<open>Next\<close> with samples left, the column whose \<^verbatim>\<open>Next()\<close> is
  called and returns false is named by the error: the timestamps; the durations
  once the timestamps have advanced; the periods once both have advanced; and a
  flat or cumulative value iterator \<open>i\<close> of the tree once the three dense columns have
  advanced to the same count and all columns \<open>pre\<close> that the walk visits before \<open>i\<close>
  have passed. In each case \<^verbatim>\<open>Next\<close> returns false and \<^verbatim>\<open>Err()\<close> is the error
  "unexpected end of ... iterator" of that column.
\<close>

theorem Next_unexpected_end:
  assumes "numSamples_it it \<noteq> 0"
  shows "(\<not> fst (Values_Next (timestampsIterator it)) \<longrightarrow>
            fst (Next it) = False \<and> Err (snd (Next it)) = Some (UnexpectedEnd ''timestamps'')) \<and>
         (advanced (timestampsIterator it) \<and> \<not> fst (Values_Next (durationsIterator it)) \<longrightarrow>
            fst (Next it) = False \<and> Err (snd (Next it)) = Some (UnexpectedEnd ''durations'')) \<and>
         (advanced (timestampsIterator it) \<and> advanced (durationsIterator it) \<and>
          \<not> fst (Values_Next (periodsIterator it)) \<longrightarrow>
            fst (Next it) = False \<and> Err (snd (Next it)) = Some (UnexpectedEnd ''periods'')) \<and>
         (advanced (timestampsIterator it) \<and>
          passes (Values_Read (snd (Values_Next (timestampsIterator it)))) (durationsIterator it) \<and>
          passes (Values_Read (snd (Values_Next (timestampsIterator it)))) (periodsIterator it) \<and>
          node_columns (tree it) = pre @ (c, i) # post \<and>
          (\<forall>x\<in>set pre. passes (Values_Read (snd (Values_Next (timestampsIterator it)))) (snd x)) \<and>
          \<not> fst (Values_Next i) \<longrightarrow>
            fst (Next it) = False \<and> Err (snd (Next it)) = Some (UnexpectedEnd c) \<and>
            (c = ''flat value'' \<or> c = ''cumulative value''))"
proof (intro conjI impI)
  assume "\<not> fst (Values_Next (timestampsIterator it))"
  then show "fst (Next it) = False" "Err (snd (Next it)) = Some (UnexpectedEnd ''timestamps'')"
    using assms by (auto simp: Next_def Err_def split: prod.splits)
next
  assume "advanced (timestampsIterator it) \<and> \<not> fst (Values_Next (durationsIterator it))"
  then show "fst (Next it) = False" "Err (snd (Next it)) = Some (UnexpectedEnd ''durations'')"
    using assms by (auto simp: Next_def Err_def advanced_def split: prod.splits)
next
  assume "advanced (timestampsIterator it) \<and> advanced (durationsIterator it) \<and>
          \<not> fst (Values_Next (periodsIterator it))"
  then show "fst (Next it) = False" "Err (snd (Next it)) = Some (UnexpectedEnd ''periods'')"
    using assms by (auto simp: Next_def Err_def advanced_def split: prod.splits)
next
  let ?r = "Values_Read (snd (Values_Next (timestampsIterator it)))"
  assume a: "advanced (timestampsIterator it) \<and>
          passes ?r (durationsIterator it) \<and> passes ?r (periodsIterator it) \<and>
          node_columns (tree it) = pre @ (c, i) # post \<and>
          (\<forall>x\<in>set pre. passes ?r (snd x)) \<and> \<not> fst (Values_Next i)"
  then have "check c ?r i = Some (UnexpectedEnd c)"
    by (auto simp: check_def split: prod.splits)
  with a have ff: "first_failure ?r (node_columns (tree it)) = Some (UnexpectedEnd c)"
    by (simp add: first_failure_split)
  from a have adv: "advanced (timestampsIterator it)" "advanced (durationsIterator it)"
      "advanced (periodsIterator it)"
    and rd: "Values_Read (snd (Values_Next (durationsIterator it))) = ?r"
      "Values_Read (snd (Values_Next (periodsIterator it))) = ?r"
    by (simp_all add: passes_def)
  show "fst (Next it) = False" "Err (snd (Next it)) = Some (UnexpectedEnd c)"
    by (simp_all add: Next_dense_advanced [OF assms adv] Let_def rd ff Err_def)
  from a have "(c, i) \<in> set (node_columns (tree it))" by simp
  then show "c = ''flat value'' \<or> c = ''cumulative value''"
    by (rule column_names)
qed

theorem Next_unexpected_end_witness:
  "Err (snd (Next (Iterator (example_series\<lparr>timestamps := []\<rparr>)))) =
     Some (UnexpectedEnd ''timestamps'') \<and>
   Err (snd (Next (Iterator (example_series\<lparr>durations := []\<rparr>)))) =
     Some (UnexpectedEnd ''durations'') \<and>
   Err (snd (Next (Iterator (example_series\<lparr>periods := []\<rparr>)))) =
     Some (UnexpectedEnd ''periods'') \<and>
   fst (Next (snd (Next (Iterator sparse_series)))) = False \<and>
   Err (snd (Next (snd (Next (Iterator sparse_series))))) = Some (UnexpectedEnd ''flat value'')"
proof -
  let ?a = "Iterator (example_series\<lparr>timestamps := []\<rparr>)"
  have "numSamples_it ?a \<noteq> 0" "\<not> fst (Values_Next (timestampsIterator ?a))"
    by (simp_all add: example_defs)
  with Next_unexpected_end [of ?a]
  have a: "Err (snd (Next ?a)) = Some (UnexpectedEnd ''timestamps'')" by blast
  let ?b = "Iterator (example_series\<lparr>durations := []\<rparr>)"
  have "numSamples_it ?b \<noteq> 0"
    "advanced (timestampsIterator ?b) \<and> \<not> fst (Values_Next (durationsIterator ?b))"
    by (simp_all add: example_defs advanced_def)
  with Next_unexpected_end [of ?b]
  have b: "Err (snd (Next ?b)) = Some (UnexpectedEnd ''durations'')" by blast
  let ?c = "Iterator (example_series\<lparr>periods := []\<rparr>)"
  have "numSamples_it ?c \<noteq> 0"
    "advanced (timestampsIterator ?c) \<and> advanced (durationsIterator ?c) \<and>
     \<not> fst (Values_Next (periodsIterator ?c))"
    by (simp_all add: example_defs advanced_def)
  with Next_unexpected_end [of ?c]
  have c: "Err (snd (Next ?c)) = Some (UnexpectedEnd ''periods'')" by blast
  let ?d = "snd (Next (Iterator sparse_series))"
  let ?one = "MultiChunkIterator [1] 1 1"
  have d: "?d = \<lparr>tree = IteratorTreeNode 0 []
          [\<lparr>Values = ?one, Label = [], NumLabel = [], NumUnit = []\<rparr>]
          [IteratorTreeNode 1 []
             [\<lparr>Values = ?one, Label = [], NumLabel = [], NumUnit = []\<rparr>]
             [IteratorTreeNode 2
                [\<lparr>Values = MultiChunkIterator [] 1 1, Label = [], NumLabel = [], NumUnit = []\<rparr>]
                [\<lparr>Values = ?one, Label = [], NumLabel = [], NumUnit = []\<rparr>] []]],
        timestampsIterator = MultiChunkIterator [2] 1 1,
        durationsIterator = MultiChunkIterator [0] 0 1,
        periodsIterator = MultiChunkIterator [0] 0 1,
        err = None, numSamples_it = 1\<rparr>"
    by (simp add: example_defs sparse_series_def Next_def)
  have "numSamples_it ?d \<noteq> 0"
    "advanced (timestampsIterator ?d) \<and>
     passes (Values_Read (snd (Values_Next (timestampsIterator ?d)))) (durationsIterator ?d) \<and>
     passes (Values_Read (snd (Values_Next (timestampsIterator ?d)))) (periodsIterator ?d) \<and>
     node_columns (tree ?d) =
       [(''cumulative value'', ?one), (''cumulative value'', ?one)] @
       (''flat value'', MultiChunkIterator [] 1 1) # [(''cumulative value'', ?one)] \<and>
     (\<forall>x\<in>set [(''cumulative value'', ?one), (''cumulative value'', ?one)].
        passes (Values_Read (snd (Values_Next (timestampsIterator ?d)))) (snd x)) \<and>
     \<not> fst (Values_Next (MultiChunkIterator [] 1 1))"
    by (simp_all add: d advanced_def passes_def)
  with Next_unexpected_end [of ?d "[(''cumulative value'', ?one), (''cumulative value'', ?one)]"
      "''flat value''" "MultiChunkIterator [] 1 1" "[(''cumulative value'', ?one)]"]
  have "fst (Next ?d) = False \<and> Err (snd (Next ?d)) = Some (UnexpectedEnd ''flat value'')"
    by blast
  with a b c show ?thesis by blast
qed

text \<open>
  Claim C2. In a call of \<^verbatim>\<open>Next\<close> with samples left that advances the timestamps,
  durations and periods, let \<open>r\<close> be the count \<^verbatim>\<open>Read()\<close> of the timestamps. If the
  count of the durations differs from \<open>r\<close>, or that of the periods does, or that of
  a flat or cumulative value iterator \<open>i\<close> of the tree after it is advanced (the
  columns \<open>pre\<close> visited before it having passed), then \<^verbatim>\<open>Next\<close> returns false and
  \<^verbatim>\<open>Err()\<close> is the error "wrong iteration for ..." that names this column, with \<open>r\<close>
  and the count found.
\<close>

theorem Next_wrong_iteration:
  assumes "numSamples_it it \<noteq> 0"
    and "advanced (timestampsIterator it)" and "advanced (durationsIterator it)"
    and "advanced (periodsIterator it)"
    and "r = Values_Read (snd (Values_Next (timestampsIterator it)))"
    and "dread = Values_Read (snd (Values_Next (durationsIterator it)))"
    and "pread = Values_Read (snd (Values_Next (periodsIterator it)))"
  shows "(dread \<noteq> r \<longrightarrow>
            fst (Next it) = False \<and>
            Err (snd (Next it)) = Some (WrongIteration ''duration'' r dread)) \<and>
         (dread = r \<and> pread \<noteq> r \<longrightarrow>
            fst (Next it) = False \<and>
            Err (snd (Next it)) = Some (WrongIteration ''periods'' r pread)) \<and>
         (dread = r \<and> pread = r \<and>
          node_columns (tree it) = pre @ (c, i) # post \<and>
          (\<forall>x\<in>set pre. passes r (snd x)) \<and>
          advanced i \<and> Values_Read (snd (Values_Next i)) \<noteq> r \<longrightarrow>
            fst (Next it) = False \<and>
            Err (snd (Next it)) = Some (WrongIteration c r (Values_Read (snd (Values_Next i)))) \<and>
            (c = ''flat value'' \<or> c = ''cumulative value''))"
proof (intro conjI impI)
  note nx = Next_dense_advanced [OF assms(1-4)]
  { assume "dread \<noteq> r"
    then show "fst (Next it) = False"
      "Err (snd (Next it)) = Some (WrongIteration ''duration'' r dread)"
      using assms(5-7) by (simp_all add: nx Let_def Err_def) }
  { assume "dread = r \<and> pread \<noteq> r"
    then show "fst (Next it) = False"
      "Err (snd (Next it)) = Some (WrongIteration ''periods'' r pread)"
      using assms(5-7) by (simp_all add: nx Let_def Err_def) }
  { assume a: "dread = r \<and> pread = r \<and>
          node_columns (tree it) = pre @ (c, i) # post \<and>
          (\<forall>x\<in>set pre. passes r (snd x)) \<and>
          advanced i \<and> Values_Read (snd (Values_Next i)) \<noteq> r"
    then have "check c r i = Some (WrongIteration c r (Values_Read (snd (Values_Next i))))"
      by (auto simp: check_def advanced_def split: prod.splits)
    with a have ff: "first_failure r (node_columns (tree it)) =
        Some (WrongIteration c r (Values_Read (snd (Values_Next i))))"
      by (simp add: first_failure_split)
    show "fst (Next it) = False"
      "Err (snd (Next it)) = Some (WrongIteration c r (Values_Read (snd (Values_Next i))))"
      using a assms(5-7) ff by (simp_all add: nx Let_def Err_def)
    from a have "(c, i) \<in> set (node_columns (tree it))" by simp
    then show "c = ''flat value'' \<or> c = ''cumulative value''"
      by (rule column_names) }
qed

theorem Next_wrong_iteration_witness:
  "fst (Next desync_iterator) = False \<and>
   Err (snd (Next desync_iterator)) = Some (WrongIteration ''duration'' 1 2) \<and>
   fst (Next periods_ahead_iterator) = False \<and>
   Err (snd (Next periods_ahead_iterator)) = Some (WrongIteration ''periods'' 1 2) \<and>
   fst (Next value_ahead_iterator) = False \<and>
   Err (snd (Next value_ahead_iterator)) = Some (WrongIteration ''cumulative value'' 1 2)"
proof -
  let ?a = desync_iterator
  have ha: "numSamples_it ?a \<noteq> 0" "advanced (timestampsIterator ?a)"
    "advanced (durationsIterator ?a)" "advanced (periodsIterator ?a)"
    "1 = Values_Read (snd (Values_Next (timestampsIterator ?a)))"
    "2 = Values_Read (snd (Values_Next (durationsIterator ?a)))"
    "1 = Values_Read (snd (Values_Next (periodsIterator ?a)))"
    by (simp_all add: example_defs example_its advanced_def)
  have "(2 :: uint64) \<noteq> 1" by simp
  with Next_wrong_iteration [OF ha]
  have a: "fst (Next ?a) = False \<and> Err (snd (Next ?a)) = Some (WrongIteration ''duration'' 1 2)"
    by blast
  let ?b = periods_ahead_iterator
  have hb: "numSamples_it ?b \<noteq> 0" "advanced (timestampsIterator ?b)"
    "advanced (durationsIterator ?b)" "advanced (periodsIterator ?b)"
    "1 = Values_Read (snd (Values_Next (timestampsIterator ?b)))"
    "1 = Values_Read (snd (Values_Next (durationsIterator ?b)))"
    "2 = Values_Read (snd (Values_Next (periodsIterator ?b)))"
    by (simp_all add: example_defs example_its advanced_def)
  have "(1 :: uint64) = 1 \<and> (2 :: uint64) \<noteq> 1" by simp
  with Next_wrong_iteration [OF hb]
  have b: "fst (Next ?b) = False \<and> Err (snd (Next ?b)) = Some (WrongIteration ''periods'' 1 2)"
    by blast
  let ?c = value_ahead_iterator
  let ?i = "MultiChunkIterator [1] 1 1"
  have hc: "numSamples_it ?c \<noteq> 0" "advanced (timestampsIterator ?c)"
    "advanced (durationsIterator ?c)" "advanced (periodsIterator ?c)"
    "1 = Values_Read (snd (Values_Next (timestampsIterator ?c)))"
    "1 = Values_Read (snd (Values_Next (durationsIterator ?c)))"
    "1 = Values_Read (snd (Values_Next (periodsIterator ?c)))"
    by (simp_all add: example_defs example_its advanced_def)
  have "(1 :: uint64) = 1 \<and> (1 :: uint64) = 1 \<and>
     node_columns (tree ?c) =
       [(''cumulative value'', MultiChunkIterator [1, 1] 0 0)] @ (''cumulative value'', ?i) # [] \<and>
     (\<forall>x\<in>set [(''cumulative value'', MultiChunkIterator [1, 1] 0 0)]. passes 1 (snd x)) \<and>
     advanced ?i \<and> Values_Read (snd (Values_Next ?i)) \<noteq> 1"
    by (simp add: example_defs example_its advanced_def passes_def)
  with Next_wrong_iteration [OF hc, of "[(''cumulative value'', MultiChunkIterator [1, 1] 0 0)]"
      "''cumulative value''" ?i "[]"]
  have "fst (Next ?c) = False \<and>
      Err (snd (Next ?c)) =
        Some (WrongIteration ''cumulative value'' 1 (Values_Read (snd (Values_Next ?i))))"
    by blast
  then have c: "fst (Next ?c) = False \<and>
      Err (snd (Next ?c)) = Some (WrongIteration ''cumulative value'' 1 2)"
    by simp
  from a b c show ?thesis by blast
qed

subsection \<open>When an error is recorded\<close>

lemma Next_calls_zero:
  "numSamples_it it = 0 \<Longrightarrow> Next_calls k it = (replicate k False, it)"
  by (induction k) (simp_all add: Next_zero)

lemma Next_True_err: "fst (Next it) \<Longrightarrow> err (snd (Next it)) = err it"
proof (cases "numSamples_it it = 0")
  case True
  then show ?thesis by (simp add: Next_zero)
next
  case False
  assume "fst (Next it)"
  with False show ?thesis by (cases rule: Next_cases) simp_all
qed

lemma Next_failed_fault:
  assumes nz: "numSamples_it it \<noteq> 0" and f: "\<not> fst (Next it)"
  shows "\<exists>e. err (snd (Next it)) = Some e \<and>
           (\<exists>i\<in>set (column_iterators it).
              column_fault (Values_Read (snd (Values_Next (timestampsIterator it)))) i e)"
proof -
  let ?ts = "timestampsIterator it" and ?d = "durationsIterator it" and ?p = "periodsIterator it"
  have mem: "?ts \<in> set (column_iterators it)" "?d \<in> set (column_iterators it)"
    "?p \<in> set (column_iterators it)"
    by (simp_all add: column_iterators_def)
  from nz show ?thesis
  proof (cases rule: Next_cases)
    case (ts_end t)
    then have "column_fault (Values_Read (snd (Values_Next ?ts))) ?ts (UnexpectedEnd ''timestamps'')"
      by (simp add: column_fault_def)
    with mem(1) ts_end show ?thesis by auto
  next
    case (ts_err t e)
    then have "column_fault (Values_Read (snd (Values_Next ?ts))) ?ts (NextError ''timestamp'' e)"
      by (simp add: column_fault_def)
    with mem(1) ts_err show ?thesis by auto
  next
    case (d_end t d)
    then have "column_fault (Values_Read (snd (Values_Next ?ts))) ?d (UnexpectedEnd ''durations'')"
      by (simp add: column_fault_def)
    with mem(2) d_end show ?thesis by auto
  next
    case (d_err t d e)
    then have "column_fault (Values_Read (snd (Values_Next ?ts))) ?d (NextError ''duration'' e)"
      by (simp add: column_fault_def)
    with mem(2) d_err show ?thesis by auto
  next
    case (p_end t d p)
    then have "column_fault (Values_Read (snd (Values_Next ?ts))) ?p (UnexpectedEnd ''periods'')"
      by (simp add: column_fault_def)
    with mem(3) p_end show ?thesis by auto
  next
    case (p_err t d p e)
    then have "column_fault (Values_Read (snd (Values_Next ?ts))) ?p (NextError ''period'' e)"
      by (simp add: column_fault_def)
    with mem(3) p_err show ?thesis by auto
  next
    case (d_read t d p)
    then have "column_fault (Values_Read (snd (Values_Next ?ts))) ?d
        (WrongIteration ''duration'' (Values_Read t) (Values_Read d))"
      by (simp add: column_fault_def)
    with mem(2) d_read show ?thesis by auto
  next
    case (p_read t d p)
    then have "column_fault (Values_Read (snd (Values_Next ?ts))) ?p
        (WrongIteration ''periods'' (Values_Read t) (Values_Read p))"
      by (simp add: column_fault_def)
    with mem(3) p_read show ?thesis by auto
  next
    case (tree_err t d p e n)
    have "first_failure (Values_Read t) (node_columns (tree it)) = Some e"
      using Next_node_failure(1) [of "Values_Read t" "tree it"] tree_err(9) by simp
    from first_failure_Some [OF this] obtain c i where
      "(c, i) \<in> set (node_columns (tree it))" "check c (Values_Read t) i = Some e"
      by blast
    then have "i \<in> set (column_iterators it)" "column_fault (Values_Read t) i e"
      by (force simp: column_iterators_def, simp add: check_fault)
    with tree_err show ?thesis by auto
  next
    case (ok t d p n)
    with f show ?thesis by simp
  qed
qed

lemma fresh_or_stuck_calls:
  "err it = None \<or> (stuck it \<and> numSamples_it it \<noteq> 0) \<Longrightarrow>
   \<forall>i\<in>set (column_iterators it). keeps_contract k i \<Longrightarrow>
   err (snd (Next_calls k it)) = None \<or>
   (stuck (snd (Next_calls k it)) \<and> numSamples_it (snd (Next_calls k it)) \<noteq> 0)"
proof (induction k arbitrary: it)
  case 0
  then show ?case by simp
next
  case (Suc k)
  from Suc.prems(2) have one: "\<forall>i\<in>set (column_iterators it). keeps_contract (Suc 0) i"
    using keeps_contract_one by blast
  have step: "err (snd (Next it)) = None \<or>
      (stuck (snd (Next it)) \<and> numSamples_it (snd (Next it)) \<noteq> 0)"
  proof (cases "numSamples_it it = 0")
    case True
    with Suc.prems(1) show ?thesis by (simp add: Next_zero)
  next
    case nz: False
    show ?thesis
    proof (cases "fst (Next it)")
      case True
      with stuck_Next_False [OF _ one] have "\<not> stuck it" by blast
      with Suc.prems(1) have "err it = None" by blast
      with Next_True_err [OF True] show ?thesis by simp
    next
      case False
      from failed_stuck [OF nz False one] Next_False_counter [OF False] nz
      show ?thesis by simp
    qed
  qed
  from Suc.IH [OF step Next_keeps_contract [OF Suc.prems(2)]]
  show ?case unfolding Next_calls_Suc .
qed

lemma sparse_after_one:
  "snd (Next (Iterator sparse_series)) =
     \<lparr>tree = IteratorTreeNode 0 []
        [\<lparr>Values = MultiChunkIterator [1] 1 1, Label = [], NumLabel = [], NumUnit = []\<rparr>]
        [IteratorTreeNode 1 []
           [\<lparr>Values = MultiChunkIterator [1] 1 1, Label = [], NumLabel = [], NumUnit = []\<rparr>]
           [IteratorTreeNode 2
              [\<lparr>Values = MultiChunkIterator [] 1 1, Label = [], NumLabel = [], NumUnit = []\<rparr>]
              [\<lparr>Values = MultiChunkIterator [1] 1 1, Label = [], NumLabel = [], NumUnit = []\<rparr>]
              []]],
      timestampsIterator = MultiChunkIterator [2] 1 1,
      durationsIterator = MultiChunkIterator [0] 0 1,
      periodsIterator = MultiChunkIterator [0] 0 1,
      err = None, numSamples_it = 1\<rparr>"
  by (simp add: example_defs sparse_series_def Next_def)

lemma example_after_two:
  "numSamples_it (snd (Next_calls 2 (Iterator example_series))) = 0"
  by (simp add: example_defs Next_def numeral_2_eq_2)

text \<open>
  Claim C10. A call of \<^verbatim>\<open>Next\<close> with the counter at zero returns false and changes
  nothing, so it records no error; a call that returns true records none either.
  A call that returns false with samples left records an error, and then a column
  iterator has ended, has reported an error or stands at another count than the
  timestamps; such a call leaves the counter as it was. So when the column iterators
  keep the contract of the interface and no error was recorded at the start, then
  whenever the counter has reached zero after \<open>k\<close> calls, \<^verbatim>\<open>Next\<close> returns false and
  \<^verbatim>\<open>Err()\<close> is \<^verbatim>\<open>nil\<close>.
\<close>

theorem Next_error_only_on_fault:
  "(numSamples_it it = 0 \<longrightarrow> Next it = (False, it)) \<and>
   (fst (Next it) \<or> numSamples_it it = 0 \<longrightarrow> Err (snd (Next it)) = Err it) \<and>
   (\<not> fst (Next it) \<and> numSamples_it it \<noteq> 0 \<longrightarrow>
      (\<exists>e. Err (snd (Next it)) = Some e \<and>
           (\<exists>i\<in>set (column_iterators it).
              column_fault (Values_Read (snd (Values_Next (timestampsIterator it)))) i e))) \<and>
   (\<not> fst (Next it) \<longrightarrow> numSamples_it (snd (Next it)) = numSamples_it it) \<and>
   (Err it = None \<and> (\<forall>i\<in>set (column_iterators it). keeps_contract k i) \<and>
    numSamples_it (snd (Next_calls k it)) = 0 \<longrightarrow>
      fst (Next (snd (Next_calls k it))) = False \<and>
      Err (snd (Next (snd (Next_calls k it)))) = None)"
proof (intro conjI impI)
  show "Next it = (False, it)" if "numSamples_it it = 0"
    using that by (rule Next_zero)
  show "Err (snd (Next it)) = Err it" if "fst (Next it) \<or> numSamples_it it = 0"
    using that Next_True_err [of it] by (auto simp: Err_def Next_zero)
  show "\<exists>e. Err (snd (Next it)) = Some e \<and>
           (\<exists>i\<in>set (column_iterators it).
              column_fault (Values_Read (snd (Values_Next (timestampsIterator it)))) i e)"
    if "\<not> fst (Next it) \<and> numSamples_it it \<noteq> 0"
    using that Next_failed_fault [of it] by (simp add: Err_def)
  show "numSamples_it (snd (Next it)) = numSamples_it it" if "\<not> fst (Next it)"
    using that by (rule Next_False_counter)
  assume a: "Err it = None \<and> (\<forall>i\<in>set (column_iterators it). keeps_contract k i) \<and>
    numSamples_it (snd (Next_calls k it)) = 0"
  then have "err it = None \<or> (stuck it \<and> numSamples_it it \<noteq> 0)"
    by (simp add: Err_def)
  from fresh_or_stuck_calls [OF this, of k] a
  have "err (snd (Next_calls k it)) = None" by blast
  with a show "fst (Next (snd (Next_calls k it))) = False"
    "Err (snd (Next (snd (Next_calls k it)))) = None"
    by (simp_all add: Next_zero Err_def)
qed

theorem Next_error_only_on_fault_witness:
  "fst (Next (snd (Next_calls 2 (Iterator example_series)))) = False \<and>
   Err (snd (Next (snd (Next_calls 2 (Iterator example_series))))) = None \<and>
   numSamples_it (snd (Next (snd (Next (Iterator sparse_series))))) =
     numSamples_it (snd (Next (Iterator sparse_series))) \<and>
   (\<exists>e. Err (snd (Next (snd (Next (Iterator sparse_series))))) = Some e \<and>
      (\<exists>i\<in>set (column_iterators (snd (Next (Iterator sparse_series)))).
         column_fault
           (Values_Read (snd (Values_Next (timestampsIterator (snd (Next (Iterator sparse_series)))))))
           i e))"
proof -
  let ?e = "Iterator example_series"
  have "Err ?e = None \<and> (\<forall>i\<in>set (column_iterators ?e). keeps_contract 2 i) \<and>
      numSamples_it (snd (Next_calls 2 ?e)) = 0"
    by (simp add: example_after_two) (simp add: example_defs Err_def numeral_2_eq_2)
  with Next_error_only_on_fault [of ?e 2]
  have a: "fst (Next (snd (Next_calls 2 ?e))) = False \<and>
      Err (snd (Next (snd (Next_calls 2 ?e)))) = None"
    by blast
  let ?s = "snd (Next (Iterator sparse_series))"
  have "\<not> fst (Next ?s) \<and> numSamples_it ?s \<noteq> 0"
    by (simp add: sparse_after_one) (simp add: Next_def)
  with Next_error_only_on_fault [of ?s 0]
  have b: "numSamples_it (snd (Next ?s)) = numSamples_it ?s \<and>
      (\<exists>e. Err (snd (Next ?s)) = Some e \<and>
        (\<exists>i\<in>set (column_iterators ?s).
           column_fault (Values_Read (snd (Values_Next (timestampsIterator ?s)))) i e))"
    by blast
  from a b show ?thesis by blast
qed

subsection \<open>After a failed call\<close>

text \<open>
  The state after \<open>j + 1\<close> calls is the state after one call on the state after \<open>j\<close>
  calls. A stuck iterator stays stuck, with the same counter, as long as its columns
  keep the contract. A failing call with samples left records its own error, whatever
  error was recorded before.
\<close>

lemma Next_calls_snoc:
  "snd (Next_calls (Suc j) it) = snd (Next (snd (Next_calls j it)))"
proof (induction j arbitrary: it)
  case 0
  show ?case by (simp split: prod.splits)
next
  case (Suc j)
  have "snd (Next_calls (Suc (Suc j)) it) = snd (Next_calls (Suc j) (snd (Next it)))"
    by (rule Next_calls_Suc(1))
  also have "\<dots> = snd (Next (snd (Next_calls j (snd (Next it)))))"
    by (rule Suc.IH)
  also have "snd (Next_calls j (snd (Next it))) = snd (Next_calls (Suc j) it)"
    by (rule Next_calls_Suc(1) [symmetric])
  finally show ?case .
qed

lemma stuck_calls_state:
  "stuck it \<Longrightarrow> \<forall>i\<in>set (column_iterators it). keeps_contract (j + m) i \<Longrightarrow>
   stuck (snd (Next_calls j it)) \<and>
   (\<forall>i\<in>set (column_iterators (snd (Next_calls j it))). keeps_contract m i) \<and>
   numSamples_it (snd (Next_calls j it)) = numSamples_it it"
proof (induction j arbitrary: it)
  case 0
  then show ?case by simp
next
  case (Suc j)
  from Suc.prems(2) have kc: "\<forall>i\<in>set (column_iterators it). keeps_contract (Suc (j + m)) i"
    by simp
  then have one: "\<forall>i\<in>set (column_iterators it). keeps_contract (Suc 0) i"
    using keeps_contract_one by blast
  have f: "\<not> fst (Next it)" using stuck_Next_False [OF Suc.prems(1) one] .
  have st: "stuck (snd (Next it))"
  proof (cases "numSamples_it it = 0")
    case True
    with Suc.prems(1) show ?thesis by (simp add: Next_zero)
  next
    case False
    from failed_stuck [OF False f one] show ?thesis .
  qed
  from Suc.IH [OF st Next_keeps_contract [OF kc]] Next_False_counter [OF f]
  show ?case unfolding Next_calls_Suc by simp
qed

lemma Next_err_fresh:
  assumes nz: "numSamples_it it \<noteq> 0" and f: "\<not> fst (Next it)"
  shows "Next (it\<lparr>err := x\<rparr>) = Next it"
  using nz
proof (cases rule: Next_cases)
  case (ts_end t)
  with nz show ?thesis by (simp add: Next_def)
next
  case (ts_err t e)
  with nz show ?thesis by (simp add: Next_def)
next
  case (d_end t d)
  with nz show ?thesis by (simp add: Next_def)
next
  case (d_err t d e)
  with nz show ?thesis by (simp add: Next_def)
next
  case (p_end t d p)
  with nz show ?thesis by (simp add: Next_def)
next
  case (p_err t d p e)
  with nz show ?thesis by (simp add: Next_def)
next
  case (d_read t d p)
  with nz show ?thesis by (simp add: Next_def)
next
  case (p_read t d p)
  with nz show ?thesis by (simp add: Next_def)
next
  case (tree_err t d p e n)
  with nz show ?thesis by (simp add: Next_def)
next
  case (ok t d p n)
  with f show ?thesis by simp
qed

lemma desync_second_call:
  "Err (snd (Next (snd (Next desync_iterator)))) = Some (UnexpectedEnd ''durations'')"
  by (simp add: example_defs example_its Next_def Err_def)

lemma failed_calls:
  assumes f: "\<not> fst (Next it)" and e: "err (snd (Next it)) \<noteq> None"
    and kc: "\<forall>i\<in>set (column_iterators it). keeps_contract (Suc k) i"
  shows "fst (Next_calls k (snd (Next it))) = replicate k False"
    and "numSamples_it (snd (Next_calls k (snd (Next it)))) = numSamples_it it"
    and "err (snd (Next_calls k (snd (Next it)))) \<noteq> None"
proof -
  have "fst (Next_calls k (snd (Next it))) = replicate k False \<and>
      numSamples_it (snd (Next_calls k (snd (Next it)))) = numSamples_it it \<and>
      err (snd (Next_calls k (snd (Next it)))) \<noteq> None"
  proof (cases "numSamples_it it = 0")
    case True
    with e show ?thesis
      by (simp add: Next_zero Next_calls_zero)
  next
    case False
    from kc have one: "\<forall>i\<in>set (column_iterators it). keeps_contract (Suc 0) i"
      using keeps_contract_one by blast
    have st: "stuck (snd (Next it))" using failed_stuck [OF False f one] .
    from stuck_calls [OF st Next_keeps_contract [OF kc]] Next_False_counter [OF f] e
    show ?thesis by simp
  qed
  then show "fst (Next_calls k (snd (Next it))) = replicate k False"
    and "numSamples_it (snd (Next_calls k (snd (Next it)))) = numSamples_it it"
    and "err (snd (Next_calls k (snd (Next it)))) \<noteq> None"
    by blast+
qed

lemma failed_calls_later:
  assumes nz0: "numSamples_it it \<noteq> 0" and f: "\<not> fst (Next it)"
    and kc: "\<forall>i\<in>set (column_iterators it). keeps_contract (Suc k) i"
    and jk: "j < k"
  shows "\<exists>e.
       err (snd (Next_calls (Suc j) (snd (Next it)))) = Some e \<and>
       (\<exists>i\<in>set (column_iterators (snd (Next_calls j (snd (Next it))))).
          column_fault
            (Values_Read (snd (Values_Next
               (timestampsIterator (snd (Next_calls j (snd (Next it))))))))
            i e) \<and>
       (\<forall>x. err (snd (Next ((snd (Next_calls j (snd (Next it))))\<lparr>err := x\<rparr>))) = Some e)"
proof -
  from kc have one: "\<forall>i\<in>set (column_iterators it). keeps_contract (Suc 0) i"
    using keeps_contract_one by blast
  have st: "stuck (snd (Next it))" using failed_stuck [OF nz0 f one] .
  define itj where "itj = snd (Next_calls j (snd (Next it)))"
  define m where "m = k - Suc j"
  from jk have k: "k = j + Suc m"
    by (simp add: m_def)
  from Next_keeps_contract [OF kc]
  have "\<forall>i\<in>set (column_iterators (snd (Next it))). keeps_contract (j + Suc m) i"
    unfolding k .
  note S = stuck_calls_state [OF st this, folded itj_def]
  have sj: "stuck itj"
    by (rule S [THEN conjunct1])
  have cj: "\<forall>i\<in>set (column_iterators itj). keeps_contract (Suc m) i"
    by (rule S [THEN conjunct2, THEN conjunct1])
  have nj: "numSamples_it itj = numSamples_it (snd (Next it))"
    by (rule S [THEN conjunct2, THEN conjunct2])
  from nj Next_False_counter [OF f] nz0 have nz: "numSamples_it itj \<noteq> 0"
    by simp
  from cj have "\<forall>i\<in>set (column_iterators itj). keeps_contract (Suc 0) i"
    using keeps_contract_one by blast
  from stuck_Next_False [OF sj this] have fj: "\<not> fst (Next itj)" .
  from Next_failed_fault [OF nz fj] obtain e where
    e: "err (snd (Next itj)) = Some e"
    and i: "\<exists>i\<in>set (column_iterators itj).
       column_fault (Values_Read (snd (Values_Next (timestampsIterator itj)))) i e"
    by blast
  have "snd (Next_calls (Suc j) (snd (Next it))) = snd (Next itj)"
    unfolding itj_def by (rule Next_calls_snoc)
  with e have e1: "err (snd (Next_calls (Suc j) (snd (Next it)))) = Some e"
    by simp
  have e2: "\<forall>x. err (snd (Next (itj\<lparr>err := x\<rparr>))) = Some e"
    using Next_err_fresh [OF nz fj] e by simp
  from e1 i e2 have "err (snd (Next_calls (Suc j) (snd (Next it)))) = Some e \<and>
       (\<exists>i\<in>set (column_iterators itj).
          column_fault (Values_Read (snd (Values_Next (timestampsIterator itj)))) i e) \<and>
       (\<forall>x. err (snd (Next (itj\<lparr>err := x\<rparr>))) = Some e)"
    by (intro conjI)
  then show ?thesis
    unfolding itj_def by (rule exI)
qed

text \<open>
  Claim C7, as stated, fails: \<^verbatim>\<open>Next\<close> does not test the recorded error, it advances
  the columns again and a later failing call overwrites the error. On the iterator
  whose durations were read once before, the first call fails the lockstep check of
  the durations; the second call finds the durations at their end and records that
  error in place of the first.
\<close>

theorem Next_first_error_overwritten:
  "fst (Next desync_iterator) = False \<and>
   Err (snd (Next desync_iterator)) = Some (WrongIteration ''duration'' 1 2) \<and>
   fst (Next (snd (Next desync_iterator))) = False \<and>
   Err (snd (Next (snd (Next desync_iterator)))) = Some (UnexpectedEnd ''durations'') \<and>
   Err (snd (Next (snd (Next desync_iterator)))) \<noteq> Err (snd (Next desync_iterator))"
  by (simp add: example_defs example_its Next_def Err_def)

text \<open>
  Claim C7, amended. Let a call of \<^verbatim>\<open>Next\<close> fail a lockstep check: it returns false
  and records the error "wrong iteration for ...". If the column iterators keep the
  contract of the interface for \<open>k\<close> more calls, then each of the next \<open>k\<close> calls of
  \<^verbatim>\<open>Next\<close> returns false, the counter stays as it was, and \<^verbatim>\<open>Err()\<close> is not \<^verbatim>\<open>nil\<close>.
  With samples left, \<^verbatim>\<open>Err()\<close> after each of these calls is the error of that call, the
  most recent one: it reports a fault of a column as the iterator stood before the
  call, and it is the same whatever error was recorded before the call. It need not
  be the first error.
\<close>

theorem Next_failure_persists:
  assumes "fst (Next it) = False"
    and "Err (snd (Next it)) = Some (WrongIteration c r g)"
    and "\<forall>i\<in>set (column_iterators it). keeps_contract (Suc k) i"
  shows "fst (Next_calls k (snd (Next it))) = replicate k False \<and>
         numSamples_it (snd (Next_calls k (snd (Next it)))) = numSamples_it it \<and>
         Err (snd (Next_calls k (snd (Next it)))) \<noteq> None \<and>
         (numSamples_it it \<noteq> 0 \<longrightarrow>
            (\<forall>j<k. \<exists>e.
               Err (snd (Next_calls (Suc j) (snd (Next it)))) = Some e \<and>
               (\<exists>i\<in>set (column_iterators (snd (Next_calls j (snd (Next it))))).
                  column_fault
                    (Values_Read (snd (Values_Next
                       (timestampsIterator (snd (Next_calls j (snd (Next it))))))))
                    i e) \<and>
               (\<forall>x. Err (snd (Next ((snd (Next_calls j (snd (Next it))))\<lparr>err := x\<rparr>))) = Some e)))"
proof -
  from assms(1) have f: "\<not> fst (Next it)" by simp
  from assms(2) have e: "err (snd (Next it)) \<noteq> None" by (simp add: Err_def)
  note first = failed_calls [OF f e assms(3)]
  have later: "\<forall>j<k. \<exists>e.
       Err (snd (Next_calls (Suc j) (snd (Next it)))) = Some e \<and>
       (\<exists>i\<in>set (column_iterators (snd (Next_calls j (snd (Next it))))).
          column_fault
            (Values_Read (snd (Values_Next
               (timestampsIterator (snd (Next_calls j (snd (Next it))))))))
            i e) \<and>
       (\<forall>x. Err (snd (Next ((snd (Next_calls j (snd (Next it))))\<lparr>err := x\<rparr>))) = Some e)"
    if nz: "numSamples_it it \<noteq> 0"
    unfolding Err_def
    by (intro allI impI) (rule failed_calls_later [OF nz f assms(3)])
  show ?thesis
    unfolding Err_def
    by (intro conjI impI) (rule first(1), rule first(2), rule first(3),
        rule later [unfolded Err_def])
qed

theorem Next_failure_persists_witness:
  "fst (Next_calls 2 (snd (Next desync_iterator))) = [False, False] \<and>
   numSamples_it (snd (Next_calls 2 (snd (Next desync_iterator)))) = 2 \<and>
   Err (snd (Next_calls 2 (snd (Next desync_iterator)))) \<noteq> None \<and>
   Err (snd (Next desync_iterator)) = Some (WrongIteration ''duration'' 1 2) \<and>
   Err (snd (Next_calls (Suc 0) (snd (Next desync_iterator)))) = Some (UnexpectedEnd ''durations'') \<and>
   (\<forall>x. Err (snd (Next ((snd (Next desync_iterator))\<lparr>err := x\<rparr>))) =
      Some (UnexpectedEnd ''durations''))"
proof -
  have h: "fst (Next desync_iterator) = False"
    "Err (snd (Next desync_iterator)) = Some (WrongIteration ''duration'' 1 2)"
    by (simp_all add: example_defs example_its Next_def Err_def)
  have "\<forall>i\<in>set (column_iterators desync_iterator). keeps_contract (Suc (Suc (Suc 0))) i"
    by (simp add: example_defs example_its)
  then have c: "\<forall>i\<in>set (column_iterators desync_iterator). keeps_contract (Suc 2) i"
    by (simp only: numeral_2_eq_2)
  have n: "numSamples_it desync_iterator = 2"
    by (simp add: example_defs example_its)
  note T = Next_failure_persists [OF h c]
  have r: "replicate 2 False = [False, False]"
    by (simp add: numeral_2_eq_2)
  have a1: "fst (Next_calls 2 (snd (Next desync_iterator))) = [False, False]"
    using T [THEN conjunct1] by (simp only: r)
  have a2: "numSamples_it (snd (Next_calls 2 (snd (Next desync_iterator)))) = 2"
    using T [THEN conjunct2, THEN conjunct1] by (simp only: n)
  note a3 = T [THEN conjunct2, THEN conjunct2, THEN conjunct1]
  from n have nz: "numSamples_it desync_iterator \<noteq> 0" by simp
  have "(0::nat) < 2" by simp
  from T [THEN conjunct2, THEN conjunct2, THEN conjunct2, THEN mp, OF nz, THEN spec, THEN mp,
      OF this]
  obtain e where e: "Err (snd (Next_calls (Suc 0) (snd (Next desync_iterator)))) = Some e"
    "\<forall>x. Err (snd (Next ((snd (Next_calls 0 (snd (Next desync_iterator))))\<lparr>err := x\<rparr>))) = Some e"
    by (elim exE conjE)
  have s: "Err (snd (Next_calls (Suc 0) (snd (Next desync_iterator)))) =
      Some (UnexpectedEnd ''durations'')"
    unfolding Next_calls_snoc Next_calls.simps(1) snd_conv by (rule desync_second_call)
  with e(1) have "e = UnexpectedEnd ''durations''" by simp
  with e(2) have x: "\<forall>x. Err (snd (Next ((snd (Next desync_iterator))\<lparr>err := x\<rparr>))) =
      Some (UnexpectedEnd ''durations'')"
    unfolding Next_calls.simps(1) snd_conv by simp
  show ?thesis
    by (intro conjI) (fact a1, fact a2, fact a3, fact h, fact s, fact x)
qed

subsection \<open>The merge of the first tree of \<^verbatim>\<open>TestMemSeriesTree\<close>\<close>

text \<open>The first profile tree and the keys of its values.\<close>

lemma pt1_tree:
  "pt1 = ProfileTreeNode 0 []
     [\<lparr>Value = 3, Label_v = [], NumLabel_v = [], NumUnit_v = []\<rparr>]
     [ProfileTreeNode 1 []
        [\<lparr>Value = 3, Label_v = [], NumLabel_v = [], NumUnit_v = []\<rparr>]
        [ProfileTreeNode 2
           [\<lparr>Value = 1, Label_v = [], NumLabel_v = [], NumUnit_v = []\<rparr>]
           [\<lparr>Value = 1, Label_v = [], NumLabel_v = [], NumUnit_v = []\<rparr>] [],
         ProfileTreeNode 4
           [\<lparr>Value = 2, Label_v = [(''foo'', [''bar'', ''baz''])], NumLabel_v = [], NumUnit_v = []\<rparr>]
           [\<lparr>Value = 2, Label_v = [(''foo'', [''bar'', ''baz''])], NumLabel_v = [], NumUnit_v = []\<rparr>]
           []]]"
  by (simp add: pt1_def s11_def s12_def makeSample_def ProfileTree_Insert_def NewProfileTree_def)

lemma keys_pt1:
  "makeKey [0] \<lparr>Value = v, Label_v = [], NumLabel_v = [], NumUnit_v = []\<rparr> = k0"
  "makeKey [1, 0] \<lparr>Value = v, Label_v = [], NumLabel_v = [], NumUnit_v = []\<rparr> = k1"
  "makeKey [2, 1, 0] \<lparr>Value = v, Label_v = [], NumLabel_v = [], NumUnit_v = []\<rparr> = k2"
  "makeKey [4, 1, 0]
     \<lparr>Value = v, Label_v = [(''foo'', [''bar'', ''baz''])], NumLabel_v = [], NumUnit_v = []\<rparr> = k4"
  by (simp_all add: makeKey_def FormatUint_def digits.simps quoted_def bracketed_def
      k0_def k1_def k2_def k4_def)

lemma keys_distinct:
  "k0 \<noteq> k1" "k0 \<noteq> k2" "k0 \<noteq> k4" "k1 \<noteq> k2" "k1 \<noteq> k4" "k2 \<noteq> k4"
  "k1 \<noteq> k0" "k2 \<noteq> k0" "k4 \<noteq> k0" "k2 \<noteq> k1" "k4 \<noteq> k1" "k4 \<noteq> k2"
  by (simp_all add: k0_def k1_def k2_def k4_def)

lemma set_first_Nil [simp]: "set_first key [] m = m"
  by (simp add: set_first_def)

lemma set_first_idem [simp]: "set_first key l (set_first key l m) = set_first key l m"
  by (simp add: set_first_def)

lemma Insert_pt1:
  assumes "seriesTree s = None"
  shows "Insert 0 pt1 s =
    s\<lparr>flatValues := write_value 0 k4 2 (write_value 0 k2 1 (flatValues s)),
      cumulativeValues :=
        write_value 0 k4 2 (write_value 0 k2 1 (write_value 0 k1 3
          (write_value 0 k0 3 (cumulativeValues s)))),
      labels := set_first k4 [(''foo'', [''bar'', ''baz''])] (labels s),
      seriesTree := Some (SeriesTreeNode [k0] 0
        [SeriesTreeNode [k1] 1 [SeriesTreeNode [k2] 2 [], SeriesTreeNode [k4] 4 []]])\<rparr>"
  by (simp add: Insert_def pt1_tree keys_pt1 keys_distinct store_labels_def add_key_def assms)

text \<open>
  Claim C4. The profile tree made of the sample of value 1 with the stack 2, 1 and of
  the sample of value 2 with the stack 4, 1 and the string labels
  \<^verbatim>\<open>{"foo": ["bar", "baz"]}\<close>, merged into an empty series at the sample index 0,
  gives the flat columns \<open>k2 = [1]\<close> and \<open>k4 = [2]\<close> and no other, the cumulative
  columns \<open>k0 = [3]\<close>, \<open>k1 = [3]\<close>, \<open>k2 = [1]\<close> and \<open>k4 = [2]\<close> and no other, and a
  labels map with exactly one entry, under \<open>k4\<close>.
\<close>

theorem Insert_two_stacks:
  "flatValues (Insert 0 pt1 NewMemSeries) = [k2 \<mapsto> [FromValuesXOR [1]], k4 \<mapsto> [FromValuesXOR [2]]] \<and>
   cumulativeValues (Insert 0 pt1 NewMemSeries) =
     [k0 \<mapsto> [FromValuesXOR [3]], k1 \<mapsto> [FromValuesXOR [3]],
      k2 \<mapsto> [FromValuesXOR [1]], k4 \<mapsto> [FromValuesXOR [2]]] \<and>
   labels (Insert 0 pt1 NewMemSeries) = [k4 \<mapsto> [(''foo'', [''bar'', ''baz''])]] \<and>
   dom (labels (Insert 0 pt1 NewMemSeries)) = {k4}"
proof -
  have "seriesTree NewMemSeries = None" by (simp add: NewMemSeries_def)
  note ins = Insert_pt1 [OF this]
  have f: "flatValues NewMemSeries = Map.empty" and c: "cumulativeValues NewMemSeries = Map.empty"
    and l: "labels NewMemSeries = Map.empty"
    by (simp_all add: NewMemSeries_def)
  show ?thesis
    by (simp add: ins f c l write_value_def push_value_def at_key_def set_first_def
        keys_distinct FromValuesXOR_def)
qed

subsection \<open>What an append writes to the value columns\<close>

text \<open>
  The merge of a tree writes to the flat and cumulative columns what
  \<open>profile_flat\<close> and \<open>profile_cumulative\<close> list, and leaves the other fields alone.
\<close>

lemma written_append [simp]: "written (a @ b) key = written a key @ written b key"
  by (simp add: written_def)

lemma written_Nil [simp]: "written [] key = []"
  by (simp add: written_def)





lemma write_value_other: "key \<noteq> k \<Longrightarrow> write_value i k v m key = m key"
  by (simp add: write_value_def)

lemma store_labels_columns [simp]:
  "flatValues (store_labels k n s) = flatValues s"
  "cumulativeValues (store_labels k n s) = cumulativeValues s"
  by (simp_all add: store_labels_def)

lemma write_all_append [simp]: "write_all i (a @ b) m = write_all i b (write_all i a m)"
  by (simp add: write_all_def)

lemma write_all_Nil [simp]: "write_all i [] m = m"
  by (simp add: write_all_def)

lemma write_all_Cons [simp]: "write_all i ((k, v) # kvs) m = write_all i kvs (write_value i k v m)"
  by (simp add: write_all_def)


lemma write_all_untouched:
  "key \<notin> fst ` set kvs \<Longrightarrow> write_all i kvs m key = m key"
  by (induction kvs arbitrary: m) (auto simp: write_value_other)


















subsection \<open>The timestamps of a run of appends\<close>













subsection \<open>The sample index of a written value\<close>























subsection \<open>\<^verbatim>\<open>truncateChunksBefore\<close> on a series\<close>











subsection \<open>The series of 500 samples\<close>









end
